theory Spec2Isabelle
  imports Main "HOL-Library.Word" "HOL-Library.AList" "HOL-Library.Code_Target_Numeral"
begin


section \<open>The PCT strategy (include/coyote/strategies/pct_strategy.h)\<close>

text \<open>
  Operation ids, step counters and lengths are \<open>size_t\<close> in the source and are modelled as
  \<open>nat\<close>; the counters that the code increments or decrements wrap at \<open>2 ^ 64\<close>, which is
  written out. The error codes are those thrown in the sources (error_code.h itself is not
  among them).
\<close>

datatype error_code =
    Success | Failure | DeadlockDetected | InternalError | SchedulerDisabled
  | ClientAttached | ClientNotAttached
  | DuplicateOperation | NotExistingOperation
  | MainOperationExplicitlyCreated | MainOperationExplicitlyStarted
  | MainOperationExplicitlyCompleted
  | OperationNotStarted | OperationAlreadyStarted | OperationAlreadyCompleted
  | DuplicateResource | NotExistingResource

definition size_t_inc :: "nat \<Rightarrow> nat" where
  "size_t_inc n = (n + 1) mod 2 ^ 64"

definition size_t_dec :: "nat \<Rightarrow> nat" where
  "size_t_dec n = (n + (2 ^ 64 - 1)) mod 2 ^ 64"

text \<open>
  The class \<open>Random\<close> (random.h) is not among the sources. Every function that draws a
  number takes the generator's \<open>next()\<close> as the parameter \<open>gnext\<close>: it maps the generator's
  state to the 64-bit value drawn and the state after the draw.
\<close>

type_synonym 'g random_next = "'g \<Rightarrow> 64 word \<times> 'g"

record 'g pct_strategy =
  generator :: 'g
  iteration_seed :: "64 word"
  max_priority_switches :: nat
  prioritized_operations :: "nat list"
  known_operations :: "nat set"
  priority_change_points :: "nat set"
  scheduled_steps :: nat
  schedule_length :: nat

text \<open>The constructor: \<open>g\<close> is the generator seeded with \<open>seed\<close>, \<open>bound\<close> the strategy bound.\<close>

definition PCTStrategy :: "'g \<Rightarrow> 64 word \<Rightarrow> nat \<Rightarrow> 'g pct_strategy" where
  "PCTStrategy g seed bound =
     \<lparr> generator = g, iteration_seed = seed, max_priority_switches = bound,
       prioritized_operations = [], known_operations = {}, priority_change_points = {},
       scheduled_steps = 0, schedule_length = 0 \<rparr>"

text \<open>
  The argument \<open>operations\<close> of the strategy is read through \<open>size()\<close> and \<open>operator[]\<close> only:
  it is the list of the enabled operation ids, in index order.
\<close>

text \<open>The body of the loop of \<open>set_new_operation_priorities\<close>, for one enabled id.\<close>

definition assign_priority :: "'g random_next \<Rightarrow> nat \<Rightarrow> 'g pct_strategy \<Rightarrow> 'g pct_strategy" where
  "assign_priority gnext next_op s =
     (if next_op \<in> known_operations s then s
      else
        (case gnext (generator s) of (r, g') \<Rightarrow>
           let index = unat r mod length (prioritized_operations s) + 1
           in s\<lparr> generator := g',
                 prioritized_operations :=
                   take index (prioritized_operations s) @ [next_op]
                     @ drop index (prioritized_operations s),
                 known_operations := insert next_op (known_operations s) \<rparr>))"

fun assign_priorities :: "'g random_next \<Rightarrow> nat list \<Rightarrow> 'g pct_strategy \<Rightarrow> 'g pct_strategy" where
  "assign_priorities gnext [] s = s"
| "assign_priorities gnext (next_op # rest) s =
     assign_priorities gnext rest (assign_priority gnext next_op s)"

definition set_new_operation_priorities ::
  "'g random_next \<Rightarrow> nat list \<Rightarrow> nat \<Rightarrow> 'g pct_strategy \<Rightarrow> 'g pct_strategy" where
  "set_new_operation_priorities gnext ops current s =
     assign_priorities gnext ops
       (if length (prioritized_operations s) = 0
        then s\<lparr> prioritized_operations := prioritized_operations s @ [current],
                known_operations := insert current (known_operations s) \<rparr>
        else s)"

text \<open>The inner loop of \<open>get_operation_with_highest_priority\<close>: the index scan of the
  enabled ids for one element of the priority list.\<close>

fun scan_operations :: "nat \<Rightarrow> nat list \<Rightarrow> nat option" where
  "scan_operations p [] = None"
| "scan_operations p (next_op # rest) =
     (if p = next_op then Some next_op else scan_operations p rest)"

fun scan_prioritized :: "nat list \<Rightarrow> nat list \<Rightarrow> error_code + nat" where
  "scan_prioritized [] ops = Inl InternalError"
| "scan_prioritized (p # ps) ops =
     (case scan_operations p ops of
        Some next_op \<Rightarrow> Inr next_op
      | None \<Rightarrow> scan_prioritized ps ops)"

definition get_operation_with_highest_priority ::
  "nat list \<Rightarrow> 'g pct_strategy \<Rightarrow> error_code + nat" where
  "get_operation_with_highest_priority ops s = scan_prioritized (prioritized_operations s) ops"

text \<open>\<open>std::list::remove\<close> erases every element equal to \<open>op\<close>.\<close>

definition try_deprioritize_operation_with_highest_priority ::
  "nat list \<Rightarrow> 'g pct_strategy \<Rightarrow> error_code + (bool \<times> 'g pct_strategy)" where
  "try_deprioritize_operation_with_highest_priority ops s =
     (if length ops \<le> 1 then Inr (False, s)
      else if scheduled_steps s \<notin> priority_change_points s then Inr (False, s)
      else
        (case get_operation_with_highest_priority ops s of
           Inl e \<Rightarrow> Inl e
         | Inr op \<Rightarrow>
             Inr (True,
               s\<lparr> prioritized_operations := removeAll op (prioritized_operations s) @ [op] \<rparr>)))"

text \<open>A throw leaves the strategy as it was when thrown, so the state is returned in
  both cases.\<close>

definition next_operation ::
  "'g random_next \<Rightarrow> nat list \<Rightarrow> nat \<Rightarrow> 'g pct_strategy \<Rightarrow> (error_code + nat) \<times> 'g pct_strategy" where
  "next_operation gnext ops current s =
     (let s1 = set_new_operation_priorities gnext ops current s in
      case try_deprioritize_operation_with_highest_priority ops s1 of
        Inl e \<Rightarrow> (Inl e, s1)
      | Inr (_, s2) \<Rightarrow>
          let s3 = s2\<lparr> scheduled_steps := size_t_inc (scheduled_steps s2) \<rparr>
          in (get_operation_with_highest_priority ops s3, s3))"

definition next_boolean :: "'g random_next \<Rightarrow> 'g pct_strategy \<Rightarrow> bool \<times> 'g pct_strategy" where
  "next_boolean gnext s =
     (case gnext (generator s) of (r, g') \<Rightarrow>
        (odd (unat r), s\<lparr> scheduled_steps := size_t_inc (scheduled_steps s), generator := g' \<rparr>))"

text \<open>
  \<open>int next_integer(int max_value)\<close>: in \<open>generator.next() % max_value\<close> the 32-bit signed
  \<open>max_value\<close> is converted to the 64-bit unsigned type of the draw (sign extension), the
  remainder is taken there, and the result is converted back to \<open>int\<close> (its low 32 bits).
  A zero divisor is undefined behaviour in C++: the result is \<open>None\<close>.
\<close>

definition next_integer ::
  "'g random_next \<Rightarrow> 32 word \<Rightarrow> 'g pct_strategy \<Rightarrow> 32 word option \<times> 'g pct_strategy" where
  "next_integer gnext max_value s =
     (case gnext (generator s) of (r, g') \<Rightarrow>
        let s' = s\<lparr> scheduled_steps := size_t_inc (scheduled_steps s), generator := g' \<rparr>;
            m = (scast max_value :: 64 word)
        in if m = 0 then (None, s') else (Some (ucast (r mod m)), s'))"

definition random_seed :: "'g pct_strategy \<Rightarrow> 64 word" where
  "random_seed s = iteration_seed s"

text \<open>
  The shuffle loop \<open>for (idx = range.size() - 1; idx >= 1; idx--)\<close>: the first argument is
  \<open>idx\<close>; \<open>std::iter_swap\<close> exchanges the elements at \<open>idx\<close> and \<open>point\<close>.
\<close>

fun shuffle_loop :: "'g random_next \<Rightarrow> nat \<Rightarrow> nat list \<Rightarrow> 'g \<Rightarrow> nat list \<times> 'g" where
  "shuffle_loop gnext 0 range_list g = (range_list, g)"
| "shuffle_loop gnext (Suc i) range_list g =
     (case gnext g of (r, g') \<Rightarrow>
        let point = unat r mod length range_list
        in shuffle_loop gnext i
             (range_list[Suc i := range_list ! point, point := range_list ! Suc i]) g')"

text \<open>The loop \<open>for (it = range.begin(); count > 0 && it != range.end(); it++)\<close>.\<close>

fun insert_change_points :: "nat \<Rightarrow> nat list \<Rightarrow> nat set \<Rightarrow> nat set" where
  "insert_change_points count [] cps = cps"
| "insert_change_points count (p # ps) cps =
     (if count > 0 then insert_change_points (count - 1) ps (insert p cps) else cps)"

definition shuffle_priority_change_points ::
  "'g random_next \<Rightarrow> 'g pct_strategy \<Rightarrow> 'g pct_strategy" where
  "shuffle_priority_change_points gnext s =
     (if schedule_length s > 1 then
        (let range_list = [1 ..< schedule_length s] in
         case shuffle_loop gnext (length range_list - 1) range_list (generator s) of
           (shuffled, g') \<Rightarrow>
             s\<lparr> generator := g',
                priority_change_points :=
                  insert_change_points (max_priority_switches s) shuffled
                    (priority_change_points s) \<rparr>)
      else s)"

definition prepare_next_iteration ::
  "'g random_next \<Rightarrow> nat \<Rightarrow> 'g pct_strategy \<Rightarrow> 'g pct_strategy" where
  "prepare_next_iteration gnext iteration s =
     (if iteration > 1 then
        (let s1 = (if schedule_length s < scheduled_steps s
                   then s\<lparr> schedule_length := scheduled_steps s \<rparr> else s);
             s2 = s1\<lparr> scheduled_steps := 0, prioritized_operations := [],
                      known_operations := {}, priority_change_points := {} \<rparr>
         in shuffle_priority_change_points gnext s2)
      else s)"

text \<open>The strategy states that the public member functions can produce.\<close>

inductive pct_reachable :: "'g random_next \<Rightarrow> 'g pct_strategy \<Rightarrow> bool"
  for gnext :: "'g random_next" where
  constructed: "pct_reachable gnext (PCTStrategy g seed bound)"
| after_next_operation:
    "pct_reachable gnext s \<Longrightarrow> pct_reachable gnext (snd (next_operation gnext ops current s))"
| after_next_boolean:
    "pct_reachable gnext s \<Longrightarrow> pct_reachable gnext (snd (next_boolean gnext s))"
| after_next_integer:
    "pct_reachable gnext s \<Longrightarrow> pct_reachable gnext (snd (next_integer gnext max_value s))"
| after_prepare_next_iteration:
    "pct_reachable gnext s \<Longrightarrow> pct_reachable gnext (prepare_next_iteration gnext iteration s)"

text \<open>
  A stand-in for the absent \<open>Random\<close>, used to run the strategy on concrete inputs: it
  replays a fixed list of draws, and draws 0 once the list is used up.
\<close>

fun replay_next :: "64 word list \<Rightarrow> 64 word \<times> 64 word list" where
  "replay_next [] = (0, [])"
| "replay_next (r # rs) = (r, rs)"

section \<open>Auxiliary definitions for the PCT strategy\<close>

text \<open>
  The Fisher-Yates shuffle that the spec and the comment above
  \<open>shuffle_priority_change_points\<close> name, written from those words and not from the code:
  for \<open>idx\<close> from the last index down to 1, the element at \<open>idx\<close> is exchanged with the
  element at a position drawn from \<open>0..idx\<close>.
\<close>

fun fisher_yates_spec :: "'g random_next \<Rightarrow> nat \<Rightarrow> nat list \<Rightarrow> 'g \<Rightarrow> nat list \<times> 'g" where
  "fisher_yates_spec gnext 0 range_list g = (range_list, g)"
| "fisher_yates_spec gnext (Suc i) range_list g =
     (case gnext g of (r, g') \<Rightarrow>
        let point = unat r mod (Suc i + 1)
        in fisher_yates_spec gnext i
             (range_list[Suc i := range_list ! point, point := range_list ! Suc i]) g')"

text \<open>The bound on the change points, with the finiteness that \<open>card\<close> needs.\<close>

definition change_points_ok :: "'g pct_strategy \<Rightarrow> bool" where
  "change_points_ok s \<longleftrightarrow>
     finite (priority_change_points s) \<and>
     card (priority_change_points s) \<le> max_priority_switches s \<and>
     (\<forall>p \<in> priority_change_points s. 1 \<le> p \<and> p < schedule_length s)"

text \<open>Two strategy states with the same change points, bound and schedule length.\<close>

definition same_change_points :: "'g pct_strategy \<Rightarrow> 'g pct_strategy \<Rightarrow> bool" where
  "same_change_points s s' \<longleftrightarrow>
     priority_change_points s' = priority_change_points s \<and>
     max_priority_switches s' = max_priority_switches s \<and>
     schedule_length s' = schedule_length s"

text \<open>
  A concrete run: a strategy constructed with bound 1 makes four boolean choices in its first
  iteration; the draws left for the next iteration are 2 and 2.
\<close>

definition four_steps :: "64 word list pct_strategy" where
  "four_steps = snd (next_boolean replay_next (snd (next_boolean replay_next
     (snd (next_boolean replay_next (snd (next_boolean replay_next
       (PCTStrategy [0, 0, 0, 0, 2, 2] 0 1))))))))"


section \<open>The scheduler kernel (reference logic of \<open>SchedulerClient\<close>)\<close>

text \<open>
  The live body of every entry point of \<open>SchedulerClient\<close> forwards the call over RPC; the
  logic that serves it is kept in the source as the reference body of the same entry point,
  and that logic is what is modelled here. It throws and catches error codes
  (\<open>throw uint32_t::DeadlockDetected\<close>, \<open>catch (uint32_t error_code)\<close>); anything else that
  is thrown, such as \<open>std::out_of_range\<close> from \<open>operation_map.at\<close>, is caught by
  \<open>catch (...)\<close>.

  Every entry point runs under the scheduler's mutex, so it is one atomic step up to the
  point where its thread waits on a condition variable. The model of an entry point returns
  the state at that point, together with how the step ended.
\<close>

subsection \<open>Operations and the enabled set\<close>

datatype operation_status = None_status | Enabled | Blocked | Completed

datatype wait_mode = WaitAny | WaitAll

text \<open>
  Modelled from the spec: the class \<open>Operation\<close> (operations/operation.h) is not among the
  sources. The fields are those of the spec's data model (\<open>blocked_operation_ids\<close> is the
  code's name of the joiners), a new record has status \<open>None\<close> and is not scheduled, and the
  helpers follow section 4.A: joining or waiting stores the target and blocks the record;
  the \<open>on_\<close> helpers answer whether a blocked record is now unblocked (mode \<open>Any\<close>: on the
  first event; mode \<open>All\<close>: when the remaining set empties) and then enable it. A record
  that is not blocked is not waiting, and they leave it as it is.
\<close>

record operation =
  op_id :: nat
  status :: operation_status
  is_scheduled :: bool
  blocked_operation_ids :: "nat list"
  join_target :: "(nat list \<times> wait_mode) option"
  waiting_resources :: "(nat list \<times> wait_mode) option"

definition Operation :: "nat \<Rightarrow> operation" where
  "Operation operation_id =
     \<lparr> op_id = operation_id, status = None_status, is_scheduled = False,
       blocked_operation_ids = [], join_target = None, waiting_resources = None \<rparr>"

definition Operation_join_operation :: "nat \<Rightarrow> operation \<Rightarrow> operation" where
  "Operation_join_operation operation_id op =
     op\<lparr> status := Blocked, join_target := Some ([operation_id], WaitAll) \<rparr>"

definition Operation_join_operations :: "nat list \<Rightarrow> bool \<Rightarrow> operation \<Rightarrow> operation" where
  "Operation_join_operations operation_ids wait_all op =
     op\<lparr> status := Blocked,
         join_target := Some (operation_ids, if wait_all then WaitAll else WaitAny) \<rparr>"

definition on_join_operation :: "nat \<Rightarrow> operation \<Rightarrow> bool \<times> operation" where
  "on_join_operation operation_id op =
     (case join_target op of
        None \<Rightarrow> (False, op)
      | Some (ids, mode) \<Rightarrow>
          if status op \<noteq> Blocked then (False, op)
          else
            (let rest = removeAll operation_id ids in
             if mode = WaitAny \<or> rest = []
             then (True, op\<lparr> status := Enabled, join_target := None \<rparr>)
             else (False, op\<lparr> join_target := Some (rest, mode) \<rparr>)))"

definition wait_resource_signal :: "nat \<Rightarrow> operation \<Rightarrow> operation" where
  "wait_resource_signal resource_id op =
     op\<lparr> status := Blocked, waiting_resources := Some ([resource_id], WaitAll) \<rparr>"

definition wait_resource_signals :: "nat list \<Rightarrow> bool \<Rightarrow> operation \<Rightarrow> operation" where
  "wait_resource_signals resource_ids wait_all op =
     op\<lparr> status := Blocked,
         waiting_resources := Some (resource_ids, if wait_all then WaitAll else WaitAny) \<rparr>"

definition on_resource_signal :: "nat \<Rightarrow> operation \<Rightarrow> bool \<times> operation" where
  "on_resource_signal resource_id op =
     (case waiting_resources op of
        None \<Rightarrow> (False, op)
      | Some (ids, mode) \<Rightarrow>
          if status op \<noteq> Blocked then (False, op)
          else
            (let rest = removeAll resource_id ids in
             if mode = WaitAny \<or> rest = []
             then (True, op\<lparr> status := Enabled, waiting_resources := None \<rparr>)
             else (False, op\<lparr> waiting_resources := Some (rest, mode) \<rparr>)))"

text \<open>
  Modelled from the spec: the class \<open>Operations\<close> (operations/operations.h), the enabled
  set, is not among the sources. Following section 4.B it is the list of the member ids in
  insertion order, each with its enabled flag: \<open>insert\<close> adds an enabled member and is an
  internal error for an id that is already a member, \<open>enable\<close> and \<open>disable\<close> flip the flag
  in place, \<open>remove\<close> erases the member, \<open>size(true)\<close> (the default) counts the enabled
  members and \<open>size(false)\<close> all of them, and the indexed view that a strategy reads is the
  list of the enabled ids.
\<close>

type_synonym operations = "(nat \<times> bool) list"

definition ops_insert :: "nat \<Rightarrow> operations \<Rightarrow> error_code + operations" where
  "ops_insert operation_id os =
     (if operation_id \<in> fst ` set os then Inl InternalError else Inr (os @ [(operation_id, True)]))"

definition ops_enable :: "nat \<Rightarrow> operations \<Rightarrow> operations" where
  "ops_enable operation_id os = map (\<lambda>(i, e). if i = operation_id then (i, True) else (i, e)) os"

definition ops_disable :: "nat \<Rightarrow> operations \<Rightarrow> operations" where
  "ops_disable operation_id os = map (\<lambda>(i, e). if i = operation_id then (i, False) else (i, e)) os"

definition ops_remove :: "nat \<Rightarrow> operations \<Rightarrow> operations" where
  "ops_remove operation_id os = filter (\<lambda>(i, e). i \<noteq> operation_id) os"

definition ops_size :: "operations \<Rightarrow> bool \<Rightarrow> nat" where
  "ops_size os enabled_only = (if enabled_only then length (filter snd os) else length os)"

definition enabled_ids :: "operations \<Rightarrow> nat list" where
  "enabled_ids os = map fst (filter snd os)"

subsection \<open>The state of the scheduler\<close>

datatype strategy_type = None_strategy | Random_strategy | PCT_strategy

text \<open>
  The strategy is reached through the \<open>Strategy\<close> interface (strategy.h, not among the
  sources). The kernel is modelled for any strategy: its state has the type \<open>'st\<close>, and the
  two member functions that the kernel calls are given as a record. \<open>next_operation\<close> may
  throw, and returns the strategy's state in both cases.
\<close>

record 'st strategy_interface =
  strategy_next_operation :: "nat list \<Rightarrow> nat \<Rightarrow> 'st \<Rightarrow> (error_code + nat) \<times> 'st"
  strategy_prepare_next_iteration :: "nat \<Rightarrow> 'st \<Rightarrow> 'st"

definition pct_interface :: "'g random_next \<Rightarrow> 'g pct_strategy strategy_interface" where
  "pct_interface gnext =
     \<lparr> strategy_next_operation = next_operation gnext,
       strategy_prepare_next_iteration = prepare_next_iteration gnext \<rparr>"

record 'st scheduler =
  exploration_strategy :: strategy_type
  strategy :: 'st
  operation_map :: "(nat \<times> operation) list"
  operations :: operations
  resource_map :: "(nat \<times> nat list) list"
  scheduled_op_id :: nat
  pending_start_operation_count :: nat
  is_attached :: bool
  iteration_count :: nat
  last_error_code :: error_code

definition main_op_id :: nat where
  "main_op_id = 0"

text \<open>The constructor, for the configured strategy type and the strategy's initial state.\<close>

definition SchedulerClient :: "strategy_type \<Rightarrow> 'st \<Rightarrow> 'st scheduler" where
  "SchedulerClient stype st =
     \<lparr> exploration_strategy = stype, strategy = st, operation_map = [],
       operations = [], resource_map = [], scheduled_op_id = 0,
       pending_start_operation_count = 0, is_attached = False, iteration_count = 0,
       last_error_code = Success \<rparr>"

text \<open>
  How the atomic part of an entry point ends: it runs to its end, it throws an error code,
  it throws something else, its thread parks in the wait loop of an operation
  (\<open>while (!op->is_scheduled) op->cv.wait(lock)\<close>), or it waits for the pending operations
  to start (\<open>pending_operations_cv.wait(lock)\<close>).
\<close>

datatype outcome = Normal | Throw error_code | Throw_other | Park nat | Wait_pending

text \<open>What the caller of an entry point sees: the returned code, or a suspended thread.\<close>

datatype call_result = Returns error_code | Parked nat | Pending

text \<open>The \<open>catch\<close> clauses and \<open>return last_error_code\<close> that end every entry point.\<close>

definition finish :: "outcome \<times> 'st scheduler \<Rightarrow> call_result \<times> 'st scheduler" where
  "finish r =
     (case r of
        (Normal, k) \<Rightarrow> (Returns (last_error_code k), k)
      | (Throw e, k) \<Rightarrow> (Returns e, k\<lparr> last_error_code := e \<rparr>)
      | (Throw_other, k) \<Rightarrow> (Returns Failure, k\<lparr> last_error_code := Failure \<rparr>)
      | (Park i, k) \<Rightarrow> (Parked i, k)
      | (Wait_pending, k) \<Rightarrow> (Pending, k))"

text \<open>
  The two \<open>std::map\<close>s are association lists: \<open>find\<close> and \<open>at\<close> are \<open>map_of\<close>, an assignment
  through a found entry is \<open>AList.update\<close>, \<open>erase\<close> is \<open>AList.delete\<close>, and \<open>size\<close> is the
  length. \<open>std::map::insert\<close> leaves the map as it is when the key is present.
\<close>

definition map_insert :: "nat \<Rightarrow> 'v \<Rightarrow> (nat \<times> 'v) list \<Rightarrow> (nat \<times> 'v) list" where
  "map_insert i v m = (case map_of m i of None \<Rightarrow> m @ [(i, v)] | Some _ \<Rightarrow> m)"

text \<open>The block \<open>scheduled_op_id = operation_id; result.first->second->is_scheduled = true\<close>.\<close>

definition schedule_first :: "nat \<Rightarrow> 'st scheduler \<Rightarrow> 'st scheduler" where
  "schedule_first operation_id k =
     k\<lparr> scheduled_op_id := operation_id,
        operation_map :=
          (case map_of (operation_map k) operation_id of
             None \<Rightarrow> operation_map k
           | Some op \<Rightarrow> AList.update operation_id (op\<lparr> is_scheduled := True \<rparr>) (operation_map k)) \<rparr>"

text \<open>The insertion and the check for the first operation, which the source has twice.\<close>

definition insert_operation :: "nat \<Rightarrow> 'st scheduler \<Rightarrow> 'st scheduler" where
  "insert_operation operation_id k =
     (let k1 = k\<lparr> operation_map := map_insert operation_id (Operation operation_id) (operation_map k) \<rparr>
      in if length (operation_map k1) = 1 then schedule_first operation_id k1 else k1)"

definition create_operation_inner :: "nat \<Rightarrow> 'st scheduler \<Rightarrow> outcome \<times> 'st scheduler" where
  "create_operation_inner operation_id k =
     (case
        (case map_of (operation_map k) operation_id of
           None \<Rightarrow> Inr (insert_operation operation_id k)
         | Some existing_op \<Rightarrow>
             if status existing_op = Completed
             then Inr (k\<lparr> operation_map := AList.update operation_id (existing_op\<lparr> status := None_status, is_scheduled := False \<rparr>) (operation_map k) \<rparr>)
             else Inl DuplicateOperation)
      of
        Inl e \<Rightarrow> (Throw e, k)
      | Inr k1 \<Rightarrow>
          (let k2 = insert_operation operation_id k1
           in (Normal, k2\<lparr> pending_start_operation_count :=
                             size_t_inc (pending_start_operation_count k2) \<rparr>)))"

definition start_operation_inner :: "nat \<Rightarrow> 'st scheduler \<Rightarrow> outcome \<times> 'st scheduler" where
  "start_operation_inner operation_id k =
     (case map_of (operation_map k) operation_id of
        None \<Rightarrow> (Throw NotExistingOperation, k)
      | Some op \<Rightarrow>
          if status op = Completed then (Throw OperationAlreadyCompleted, k)
          else if status op \<noteq> None_status then (Throw OperationAlreadyStarted, k)
          else
            (let k1 = k\<lparr> pending_start_operation_count :=
                           size_t_dec (pending_start_operation_count k) \<rparr>
             in if status op \<noteq> Completed then
                  (let op' = op\<lparr> status := Enabled \<rparr>;
                       k2 = k1\<lparr> operation_map := AList.update operation_id op' (operation_map k1) \<rparr>
                   in case ops_insert (op_id op') (operations k2) of
                        Inl e \<Rightarrow> (Throw e, k2)
                      | Inr os \<Rightarrow>
                          if \<not> is_scheduled op' then (Park operation_id, k2\<lparr> operations := os \<rparr>)
                          else (Normal, k2\<lparr> operations := os \<rparr>))
                else (Normal, k1)))"

text \<open>
  \<open>schedule_next_inner\<close>. A thread that finds pending operations waits; when it is woken
  it tests the counter again and goes on from there, which is this function run again.
\<close>

definition schedule_next_inner ::
  "'st strategy_interface \<Rightarrow> 'st scheduler \<Rightarrow> outcome \<times> 'st scheduler" where
  "schedule_next_inner strat k =
     (if pending_start_operation_count k > 0 then (Wait_pending, k)
      else if ops_size (operations k) True = 0 then
        (if ops_size (operations k) False > 0 then (Throw DeadlockDetected, k)
         else (Throw Success, k))
      else
        (case strategy_next_operation strat (enabled_ids (operations k)) (scheduled_op_id k)
                (strategy k) of
           (Inl e, st') \<Rightarrow> (Throw e, k\<lparr> strategy := st' \<rparr>)
         | (Inr next_id, st') \<Rightarrow>
             (let k1 = k\<lparr> strategy := st' \<rparr> in
              case map_of (operation_map k1) next_id of
                None \<Rightarrow> (Throw_other, k1)
              | Some next_op \<Rightarrow>
                  (let previous_id = scheduled_op_id k1;
                       k2 = k1\<lparr> scheduled_op_id := next_id \<rparr>
                   in if previous_id \<noteq> next_id then
                        (let k3 = k2\<lparr> operation_map :=
                                      AList.update next_id (next_op\<lparr> is_scheduled := True \<rparr>) (operation_map k2) \<rparr>
                         in case map_of (operation_map k3) previous_id of
                              None \<Rightarrow> (Throw_other, k3)
                            | Some previous_op \<Rightarrow>
                                if status previous_op \<noteq> Completed
                                then (Park previous_id,
                                      k3\<lparr> operation_map := AList.update previous_id (previous_op\<lparr> is_scheduled := False \<rparr>) (operation_map k3) \<rparr>)
                                else (Normal, k3))
                      else (Normal, k2)))))"

subsection \<open>The entry points\<close>

definition attach :: "'st strategy_interface \<Rightarrow> 'st scheduler \<Rightarrow> call_result \<times> 'st scheduler" where
  "attach strat k = finish
     (if exploration_strategy k = None_strategy then (Throw SchedulerDisabled, k)
      else if is_attached k then (Throw ClientAttached, k)
      else
        (let k1 = k\<lparr> is_attached := True, iteration_count := size_t_inc (iteration_count k),
                     last_error_code := Success \<rparr>;
             k2 = (if iteration_count k1 > 1
                   then k1\<lparr> strategy := strategy_prepare_next_iteration strat
                                           (iteration_count k1) (strategy k1) \<rparr>
                   else k1)
         in case create_operation_inner main_op_id k2 of
              (Normal, k3) \<Rightarrow> start_operation_inner main_op_id k3
            | r \<Rightarrow> r))"

text \<open>The loop of \<open>detach\<close> over the operation map, which cancels every operation that has
  not completed; it returns the map and the enabled set.\<close>

fun cancel_operations ::
  "(nat \<times> operation) list \<Rightarrow> operations \<Rightarrow> (nat \<times> operation) list \<times> operations" where
  "cancel_operations [] os = ([], os)"
| "cancel_operations ((i, next_op) # rest) os =
     (if status next_op \<noteq> Completed then
        (case cancel_operations rest (ops_disable (op_id next_op) os) of
           (rest', os') \<Rightarrow> ((i, next_op\<lparr> is_scheduled := True, status := Completed \<rparr>) # rest', os'))
      else
        (case cancel_operations rest os of
           (rest', os') \<Rightarrow> ((i, next_op) # rest', os')))"

definition detach :: "'st scheduler \<Rightarrow> call_result \<times> 'st scheduler" where
  "detach k = finish
     (if exploration_strategy k = None_strategy then (Throw SchedulerDisabled, k)
      else if \<not> is_attached k then (Throw ClientNotAttached, k)
      else
        (let k1 = k\<lparr> is_attached := False \<rparr> in
         case map_of (operation_map k1) main_op_id of
           None \<Rightarrow> (Throw_other, k1)
         | Some main_op \<Rightarrow>
             (let main_op' = main_op\<lparr> status := Completed \<rparr>;
                  k2 = k1\<lparr> operation_map := AList.update main_op_id main_op' (operation_map k1),
                           operations := ops_disable (op_id main_op') (operations k1) \<rparr>;
                  k3 = (case cancel_operations (operation_map k2) (operations k2) of
                          (m, os) \<Rightarrow> k2\<lparr> operation_map := m, operations := os \<rparr>)
              in (Normal, k3\<lparr> operation_map := [], operations := [],
                               resource_map := [],
                               pending_start_operation_count := 0 \<rparr>))))"

definition create_operation :: "nat \<Rightarrow> 'st scheduler \<Rightarrow> call_result \<times> 'st scheduler" where
  "create_operation operation_id k = finish
     (if exploration_strategy k = None_strategy then (Throw SchedulerDisabled, k)
      else if \<not> is_attached k then (Throw ClientNotAttached, k)
      else if operation_id = main_op_id then (Throw MainOperationExplicitlyCreated, k)
      else create_operation_inner operation_id k)"

definition start_operation :: "nat \<Rightarrow> 'st scheduler \<Rightarrow> call_result \<times> 'st scheduler" where
  "start_operation operation_id k = finish
     (if exploration_strategy k = None_strategy then (Throw SchedulerDisabled, k)
      else if \<not> is_attached k then (Throw ClientNotAttached, k)
      else if operation_id = main_op_id then (Throw MainOperationExplicitlyStarted, k)
      else start_operation_inner operation_id k)"

text \<open>The caller of a join or of a wait is the scheduled operation: it is blocked, disabled
  in the enabled set, and the next operation is scheduled.\<close>

definition block_scheduled_operation ::
  "'st strategy_interface \<Rightarrow> (operation \<Rightarrow> operation) \<Rightarrow> 'st scheduler \<Rightarrow> outcome \<times> 'st scheduler" where
  "block_scheduled_operation strat blocking k =
     (case map_of (operation_map k) (scheduled_op_id k) of
        None \<Rightarrow> (Throw_other, k)
      | Some scheduled_op \<Rightarrow>
          (let scheduled_op' = blocking scheduled_op
           in schedule_next_inner strat
                (k\<lparr> operation_map := AList.update (scheduled_op_id k) scheduled_op' (operation_map k),
                    operations := ops_disable (op_id scheduled_op') (operations k) \<rparr>)))"

definition add_joiner :: "nat \<Rightarrow> operation \<Rightarrow> 'st scheduler \<Rightarrow> 'st scheduler" where
  "add_joiner operation_id join_op k =
     k\<lparr> operation_map := AList.update operation_id (join_op\<lparr> blocked_operation_ids :=
                      List.insert (scheduled_op_id k) (blocked_operation_ids join_op) \<rparr>) (operation_map k) \<rparr>"

definition join_operation ::
  "'st strategy_interface \<Rightarrow> nat \<Rightarrow> 'st scheduler \<Rightarrow> call_result \<times> 'st scheduler" where
  "join_operation strat operation_id k = finish
     (if exploration_strategy k = None_strategy then (Throw SchedulerDisabled, k)
      else if \<not> is_attached k then (Throw ClientNotAttached, k)
      else
        (case map_of (operation_map k) operation_id of
           None \<Rightarrow> (Throw NotExistingOperation, k)
         | Some join_op \<Rightarrow>
             if status join_op \<noteq> Completed
             then block_scheduled_operation strat (Operation_join_operation operation_id)
                    (add_joiner operation_id join_op k)
             else (Normal, k)))"

text \<open>The first loop of \<open>join_operations\<close>; the second component collects \<open>join_operations\<close>,
  the ids that have not completed.\<close>

fun collect_join_operations ::
  "nat list \<Rightarrow> nat list \<Rightarrow> 'st scheduler \<Rightarrow> outcome \<times> nat list \<times> 'st scheduler" where
  "collect_join_operations [] joined k = (Normal, joined, k)"
| "collect_join_operations (operation_id # rest) joined k =
     (case map_of (operation_map k) operation_id of
        None \<Rightarrow> (Throw NotExistingOperation, joined, k)
      | Some join_op \<Rightarrow>
          if status join_op \<noteq> Completed
          then collect_join_operations rest (joined @ [operation_id])
                 (add_joiner operation_id join_op k)
          else collect_join_operations rest joined k)"

definition join_operations ::
  "'st strategy_interface \<Rightarrow> nat list \<Rightarrow> bool \<Rightarrow> 'st scheduler \<Rightarrow> call_result \<times> 'st scheduler" where
  "join_operations strat operation_ids wait_all k = finish
     (if exploration_strategy k = None_strategy then (Throw SchedulerDisabled, k)
      else if \<not> is_attached k then (Throw ClientNotAttached, k)
      else
        (case collect_join_operations operation_ids [] k of
           (Normal, joined, k1) \<Rightarrow>
             if joined \<noteq> []
             then block_scheduled_operation strat (Operation_join_operations joined wait_all) k1
             else (Normal, k1)
         | (r, _, k1) \<Rightarrow> (r, k1)))"

text \<open>The loop of \<open>complete_operation\<close> over the operations that wait to join.\<close>

fun notify_joiners :: "nat \<Rightarrow> nat list \<Rightarrow> 'st scheduler \<Rightarrow> outcome \<times> 'st scheduler" where
  "notify_joiners operation_id [] k = (Normal, k)"
| "notify_joiners operation_id (blocked_id # rest) k =
     (case map_of (operation_map k) blocked_id of
        None \<Rightarrow> (Throw_other, k)
      | Some blocked_op \<Rightarrow>
          (case on_join_operation operation_id blocked_op of
             (satisfied, blocked_op') \<Rightarrow>
               notify_joiners operation_id rest
                 (k\<lparr> operation_map := AList.update blocked_id blocked_op' (operation_map k),
                     operations := (if satisfied then ops_enable (op_id blocked_op') (operations k)
                                    else operations k) \<rparr>)))"

definition complete_operation ::
  "'st strategy_interface \<Rightarrow> nat \<Rightarrow> 'st scheduler \<Rightarrow> call_result \<times> 'st scheduler" where
  "complete_operation strat operation_id k = finish
     (if exploration_strategy k = None_strategy then (Throw SchedulerDisabled, k)
      else if \<not> is_attached k then (Throw ClientNotAttached, k)
      else if operation_id = main_op_id then (Throw MainOperationExplicitlyCompleted, k)
      else
        (case map_of (operation_map k) operation_id of
           None \<Rightarrow> (Throw NotExistingOperation, k)
         | Some op \<Rightarrow>
             if status op = Completed then (Throw OperationAlreadyCompleted, k)
             else if status op = None_status then (Throw OperationNotStarted, k)
             else
               (let op' = op\<lparr> status := Completed \<rparr>;
                    k1 = k\<lparr> operation_map := AList.update operation_id op' (operation_map k),
                            operations := ops_remove (op_id op') (operations k) \<rparr>
                in case notify_joiners operation_id (blocked_operation_ids op') k1 of
                     (Normal, k2) \<Rightarrow> schedule_next_inner strat k2
                   | r \<Rightarrow> r)))"

definition create_resource :: "nat \<Rightarrow> 'st scheduler \<Rightarrow> call_result \<times> 'st scheduler" where
  "create_resource resource_id k = finish
     (if exploration_strategy k = None_strategy then (Throw SchedulerDisabled, k)
      else if \<not> is_attached k then (Throw ClientNotAttached, k)
      else
        (case map_of (resource_map k) resource_id of
           Some _ \<Rightarrow> (Throw DuplicateResource, k)
         | None \<Rightarrow> (Normal, k\<lparr> resource_map := AList.update resource_id [] (resource_map k) \<rparr>)))"

text \<open>
  \<open>wait_resource\<close>: the wait is stored on the scheduled operation and the operation is
  disabled before the resource is looked up.
\<close>

definition wait_resource ::
  "'st strategy_interface \<Rightarrow> nat \<Rightarrow> 'st scheduler \<Rightarrow> call_result \<times> 'st scheduler" where
  "wait_resource strat resource_id k = finish
     (if exploration_strategy k = None_strategy then (Throw SchedulerDisabled, k)
      else if \<not> is_attached k then (Throw ClientNotAttached, k)
      else
        (case map_of (operation_map k) (scheduled_op_id k) of
           None \<Rightarrow> (Throw_other, k)
         | Some scheduled_op \<Rightarrow>
             (let scheduled_op' = wait_resource_signal resource_id scheduled_op;
                  k1 = k\<lparr> operation_map := AList.update (scheduled_op_id k) scheduled_op' (operation_map k),
                          operations := ops_disable (op_id scheduled_op') (operations k) \<rparr>
              in case map_of (resource_map k1) resource_id of
                   None \<Rightarrow> (Throw NotExistingResource, k1)
                 | Some blocked_ids \<Rightarrow>
                     schedule_next_inner strat
                       (k1\<lparr> resource_map := AList.update resource_id (List.insert (scheduled_op_id k1) blocked_ids) (resource_map k1) \<rparr>))))"

fun block_on_resources :: "nat list \<Rightarrow> 'st scheduler \<Rightarrow> outcome \<times> 'st scheduler" where
  "block_on_resources [] k = (Normal, k)"
| "block_on_resources (resource_id # rest) k =
     (case map_of (resource_map k) resource_id of
        None \<Rightarrow> (Throw NotExistingResource, k)
      | Some blocked_ids \<Rightarrow>
          block_on_resources rest
            (k\<lparr> resource_map := AList.update resource_id (List.insert (scheduled_op_id k) blocked_ids) (resource_map k) \<rparr>))"

definition wait_resources ::
  "'st strategy_interface \<Rightarrow> nat list \<Rightarrow> bool \<Rightarrow> 'st scheduler \<Rightarrow> call_result \<times> 'st scheduler" where
  "wait_resources strat resource_ids wait_all k = finish
     (if exploration_strategy k = None_strategy then (Throw SchedulerDisabled, k)
      else if \<not> is_attached k then (Throw ClientNotAttached, k)
      else
        (case map_of (operation_map k) (scheduled_op_id k) of
           None \<Rightarrow> (Throw_other, k)
         | Some scheduled_op \<Rightarrow>
             (let scheduled_op' = wait_resource_signals resource_ids wait_all scheduled_op;
                  k1 = k\<lparr> operation_map := AList.update (scheduled_op_id k) scheduled_op' (operation_map k),
                          operations := ops_disable (op_id scheduled_op') (operations k) \<rparr>
              in case block_on_resources resource_ids k1 of
                   (Normal, k2) \<Rightarrow> schedule_next_inner strat k2
                 | r \<Rightarrow> r)))"

text \<open>The loop of \<open>signal_resource\<close> over the operations blocked on the resource.\<close>

fun signal_blocked :: "nat \<Rightarrow> nat list \<Rightarrow> 'st scheduler \<Rightarrow> outcome \<times> 'st scheduler" where
  "signal_blocked resource_id [] k = (Normal, k)"
| "signal_blocked resource_id (blocked_id # rest) k =
     (case map_of (operation_map k) blocked_id of
        None \<Rightarrow> (Throw_other, k)
      | Some blocked_op \<Rightarrow>
          (case on_resource_signal resource_id blocked_op of
             (satisfied, blocked_op') \<Rightarrow>
               signal_blocked resource_id rest
                 (k\<lparr> operation_map := AList.update blocked_id blocked_op' (operation_map k),
                     operations := (if satisfied then ops_enable (op_id blocked_op') (operations k)
                                    else operations k) \<rparr>)))"

definition signal_resource :: "nat \<Rightarrow> 'st scheduler \<Rightarrow> call_result \<times> 'st scheduler" where
  "signal_resource resource_id k = finish
     (if exploration_strategy k = None_strategy then (Throw SchedulerDisabled, k)
      else if \<not> is_attached k then (Throw ClientNotAttached, k)
      else
        (case map_of (resource_map k) resource_id of
           None \<Rightarrow> (Throw NotExistingResource, k)
         | Some blocked_ids \<Rightarrow>
             (case signal_blocked resource_id blocked_ids k of
                (Normal, k1) \<Rightarrow>
                  (Normal, k1\<lparr> resource_map := AList.update resource_id [] (resource_map k1) \<rparr>)
              | r \<Rightarrow> r)))"

text \<open>The overload \<open>signal_resource(resource_id, operation_id)\<close>.\<close>

definition signal_resource_operation ::
  "nat \<Rightarrow> nat \<Rightarrow> 'st scheduler \<Rightarrow> call_result \<times> 'st scheduler" where
  "signal_resource_operation resource_id operation_id k = finish
     (if exploration_strategy k = None_strategy then (Throw SchedulerDisabled, k)
      else if \<not> is_attached k then (Throw ClientNotAttached, k)
      else
        (case map_of (resource_map k) resource_id of
           None \<Rightarrow> (Throw NotExistingResource, k)
         | Some blocked_ids \<Rightarrow>
             if operation_id \<in> set blocked_ids then
               (case signal_blocked resource_id [operation_id] k of
                  (Normal, k1) \<Rightarrow>
                    (Normal, k1\<lparr> resource_map := AList.update resource_id (removeAll operation_id blocked_ids) (resource_map k1) \<rparr>)
                | r \<Rightarrow> r)
             else (Normal, k)))"

definition delete_resource :: "nat \<Rightarrow> 'st scheduler \<Rightarrow> call_result \<times> 'st scheduler" where
  "delete_resource resource_id k = finish
     (if exploration_strategy k = None_strategy then (Throw SchedulerDisabled, k)
      else if \<not> is_attached k then (Throw ClientNotAttached, k)
      else
        (case map_of (resource_map k) resource_id of
           None \<Rightarrow> (Throw NotExistingResource, k)
         | Some _ \<Rightarrow> (Normal, k\<lparr> resource_map := AList.delete resource_id (resource_map k) \<rparr>)))"

definition schedule_next ::
  "'st strategy_interface \<Rightarrow> 'st scheduler \<Rightarrow> call_result \<times> 'st scheduler" where
  "schedule_next strat k = finish
     (if exploration_strategy k = None_strategy then (Throw SchedulerDisabled, k)
      else if \<not> is_attached k then (Throw ClientNotAttached, k)
      else schedule_next_inner strat k)"

subsection \<open>Suspended threads and runs\<close>

text \<open>
  A thread parked in the wait loop of operation \<open>i\<close> is woken: when the client is no longer
  attached it throws \<open>ClientNotAttached\<close>; when its operation is scheduled its entry point
  returns; otherwise it waits again.
\<close>

definition resume_parked :: "nat \<Rightarrow> 'st scheduler \<Rightarrow> call_result \<times> 'st scheduler" where
  "resume_parked i k =
     (if \<not> is_attached k then finish (Throw ClientNotAttached, k)
      else
        (case map_of (operation_map k) i of
           None \<Rightarrow> (Parked i, k)
         | Some op \<Rightarrow> if is_scheduled op then finish (Normal, k) else (Parked i, k)))"

text \<open>A thread that waits for the pending operations is woken inside \<open>schedule_next_inner\<close>.\<close>

definition resume_pending ::
  "'st strategy_interface \<Rightarrow> 'st scheduler \<Rightarrow> call_result \<times> 'st scheduler" where
  "resume_pending strat k = finish (schedule_next_inner strat k)"

datatype entry_point =
    Attach | Detach
  | Create_operation nat | Start_operation nat | Complete_operation nat
  | Join_operation nat | Join_operations "nat list" bool
  | Create_resource nat | Delete_resource nat
  | Wait_resource nat | Wait_resources "nat list" bool
  | Signal_resource nat | Signal_resource_operation nat nat
  | Schedule_next
  | Resume_parked nat | Resume_pending

fun call :: "'st strategy_interface \<Rightarrow> entry_point \<Rightarrow> 'st scheduler \<Rightarrow> call_result \<times> 'st scheduler" where
  "call strat Attach k = attach strat k"
| "call strat Detach k = detach k"
| "call strat (Create_operation i) k = create_operation i k"
| "call strat (Start_operation i) k = start_operation i k"
| "call strat (Complete_operation i) k = complete_operation strat i k"
| "call strat (Join_operation i) k = join_operation strat i k"
| "call strat (Join_operations is wait_all) k = join_operations strat is wait_all k"
| "call strat (Create_resource r) k = create_resource r k"
| "call strat (Delete_resource r) k = delete_resource r k"
| "call strat (Wait_resource r) k = wait_resource strat r k"
| "call strat (Wait_resources rs wait_all) k = wait_resources strat rs wait_all k"
| "call strat (Signal_resource r) k = signal_resource r k"
| "call strat (Signal_resource_operation r i) k = signal_resource_operation r i k"
| "call strat Schedule_next k = schedule_next strat k"
| "call strat (Resume_parked i) k = resume_parked i k"
| "call strat Resume_pending k = resume_pending strat k"

text \<open>The state after a sequence of steps, and the results of the steps.\<close>

fun run :: "'st strategy_interface \<Rightarrow> entry_point list \<Rightarrow> 'st scheduler \<Rightarrow> 'st scheduler" where
  "run strat [] k = k"
| "run strat (e # es) k = run strat es (snd (call strat e k))"

fun results :: "'st strategy_interface \<Rightarrow> entry_point list \<Rightarrow> 'st scheduler \<Rightarrow> call_result list" where
  "results strat [] k = []"
| "results strat (e # es) k = fst (call strat e k) # results strat es (snd (call strat e k))"

text \<open>The states of the scheduler that some sequence of steps reaches from a new client.\<close>

inductive reachable :: "'st strategy_interface \<Rightarrow> 'st scheduler \<Rightarrow> bool"
  for strat :: "'st strategy_interface" where
  new_client: "reachable strat (SchedulerClient stype st)"
| step: "reachable strat k \<Longrightarrow> reachable strat (snd (call strat e k))"

text \<open>
  The form of the scheduling invariant that the steps keep: a record that is scheduled and
  has not completed is the record of \<open>scheduled_op_id\<close>.
\<close>

definition scheduled_is_current :: "'st scheduler \<Rightarrow> bool" where
  "scheduled_is_current k \<longleftrightarrow>
     (\<forall>i op. map_of (operation_map k) i = Some op \<and> is_scheduled op \<and> status op \<noteq> Completed
        \<longrightarrow> i = scheduled_op_id k)"

subsection \<open>Concrete runs\<close>

text \<open>
  A client with the PCT strategy, bound 0 and a generator that draws zeros, and the states
  after some sequences of calls.
\<close>

definition example_strategy :: "64 word list pct_strategy strategy_interface" where
  "example_strategy = pct_interface replay_next"

definition example_client :: "64 word list pct_strategy scheduler" where
  "example_client = SchedulerClient PCT_strategy (PCTStrategy [] 0 0)"

definition after_attach :: "64 word list pct_strategy scheduler" where
  "after_attach = run example_strategy [Attach] example_client"

text \<open>The main operation waits for resource 5, with no other operation.\<close>

definition main_waits_alone :: "64 word list pct_strategy scheduler" where
  "main_waits_alone =
     run example_strategy [Attach, Create_resource 5, Wait_resource 5] example_client"

text \<open>The main operation waits for resource 5, and operation 1 gets the token.\<close>

definition main_waits_beside_1 :: "64 word list pct_strategy scheduler" where
  "main_waits_beside_1 =
     run example_strategy
       [Attach, Create_resource 5, Create_operation 1, Start_operation 1, Wait_resource 5]
       example_client"

text \<open>The main operation joins operation 1, which gets the token and completes.\<close>

definition joined_and_completed :: "64 word list pct_strategy scheduler" where
  "joined_and_completed =
     run example_strategy
       [Attach, Create_operation 1, Start_operation 1, Join_operation 1, Complete_operation 1]
       example_client"

text \<open>Operation 3 is created, started and completed; then it is created again.\<close>

definition operation_3_completed :: "64 word list pct_strategy scheduler" where
  "operation_3_completed =
     run example_strategy
       [Attach, Create_operation 3, Start_operation 3, Complete_operation 3] example_client"

definition operation_3_revived :: "64 word list pct_strategy scheduler" where
  "operation_3_revived = snd (create_operation 3 operation_3_completed)"

text \<open>
  The main operation waits for resource 5, operation 1 gets the token and completes; then
  operation 1 is created again.
\<close>

definition waiting_and_completed :: "64 word list pct_strategy scheduler" where
  "waiting_and_completed =
     run example_strategy
       [Attach, Create_resource 5, Create_operation 1, Start_operation 1, Wait_resource 5,
        Complete_operation 1]
       example_client"

definition token_holder_revived :: "64 word list pct_strategy scheduler" where
  "token_holder_revived =
     run example_strategy
       [Attach, Create_resource 5, Create_operation 1, Start_operation 1, Wait_resource 5,
        Complete_operation 1, Create_operation 1]
       example_client"

text \<open>Operation 7 is created twice.\<close>

definition created_twice :: "64 word list pct_strategy scheduler" where
  "created_twice =
     run example_strategy [Attach, Create_operation 7, Create_operation 7] example_client"

text \<open>The main operation waits alone for resource 5, and \<open>schedule_next\<close> is called.\<close>

definition after_deadlock :: "64 word list pct_strategy scheduler" where
  "after_deadlock = snd (schedule_next example_strategy main_waits_alone)"

section \<open>Auxiliary facts about the PCT strategy\<close>

lemma assign_priority_nonempty:
  "prioritized_operations s \<noteq> [] \<Longrightarrow> prioritized_operations (assign_priority gnext next_op s) \<noteq> []"
  by (simp add: assign_priority_def Let_def split: prod.splits)

lemma assign_priority_hd:
  "prioritized_operations s \<noteq> [] \<Longrightarrow>
   hd (prioritized_operations (assign_priority gnext next_op s)) = hd (prioritized_operations s)"
  by (cases "prioritized_operations s") (simp_all add: assign_priority_def Let_def split: prod.splits)

lemma assign_priorities_hd:
  "prioritized_operations s \<noteq> [] \<Longrightarrow>
   prioritized_operations (assign_priorities gnext ops s) \<noteq> [] \<and>
   hd (prioritized_operations (assign_priorities gnext ops s)) = hd (prioritized_operations s)"
proof (induction ops arbitrary: s)
  case Nil
  then show ?case by simp
next
  case (Cons next_op rest)
  have ne: "prioritized_operations (assign_priority gnext next_op s) \<noteq> []"
    using Cons.prems by (rule assign_priority_nonempty)
  show ?case
    using Cons.IH [OF ne] assign_priority_hd [OF Cons.prems, of gnext next_op] by simp
qed

lemma scan_operations_eq:
  "scan_operations p ops = (if p \<in> set ops then Some p else None)"
  by (induction ops) auto

lemma scan_prioritized_find:
  "scan_prioritized ps ops =
     (case List.find (\<lambda>p. p \<in> set ops) ps of Some p \<Rightarrow> Inr p | None \<Rightarrow> Inl InternalError)"
  by (induction ps) (auto simp: scan_operations_eq)

lemma assign_priority_known:
  "known_operations s = set (prioritized_operations s) \<Longrightarrow>
   known_operations (assign_priority gnext next_op s) =
     set (prioritized_operations (assign_priority gnext next_op s)) \<and>
   next_op \<in> known_operations (assign_priority gnext next_op s) \<and>
   known_operations s \<subseteq> known_operations (assign_priority gnext next_op s)"
proof (cases "next_op \<in> known_operations s")
  case True
  assume "known_operations s = set (prioritized_operations s)"
  with True show ?thesis by (simp add: assign_priority_def)
next
  case False
  assume inv: "known_operations s = set (prioritized_operations s)"
  obtain r g' where d: "gnext (generator s) = (r, g')" by (cases "gnext (generator s)")
  let ?pl = "prioritized_operations s"
  let ?k = "unat r mod length ?pl + 1"
  have "set (take ?k ?pl) \<union> set (drop ?k ?pl) = set ?pl"
    by (metis append_take_drop_id set_append)
  then have "set (take ?k ?pl @ [next_op] @ drop ?k ?pl) = insert next_op (set ?pl)"
    by simp
  with False inv d show ?thesis
    by (auto simp: assign_priority_def Let_def)
qed

lemma assign_priorities_known:
  "known_operations s = set (prioritized_operations s) \<Longrightarrow>
   known_operations (assign_priorities gnext ops s) =
     set (prioritized_operations (assign_priorities gnext ops s)) \<and>
   set ops \<union> known_operations s \<subseteq> known_operations (assign_priorities gnext ops s)"
proof (induction ops arbitrary: s)
  case Nil
  then show ?case by simp
next
  case (Cons next_op rest)
  note step = assign_priority_known [OF Cons.prems, of gnext next_op]
  from step have inv': "known_operations (assign_priority gnext next_op s) =
     set (prioritized_operations (assign_priority gnext next_op s))" by simp
  from Cons.IH [OF inv'] step show ?case by simp blast
qed

lemma set_new_operation_priorities_known:
  assumes "known_operations s = set (prioritized_operations s)"
  shows "known_operations (set_new_operation_priorities gnext ops current s) =
           set (prioritized_operations (set_new_operation_priorities gnext ops current s))"
    and "set ops \<subseteq> known_operations (set_new_operation_priorities gnext ops current s)"
proof -
  let ?s0 = "if length (prioritized_operations s) = 0
        then s\<lparr> prioritized_operations := prioritized_operations s @ [current],
                known_operations := insert current (known_operations s) \<rparr>
        else s"
  have inv0: "known_operations ?s0 = set (prioritized_operations ?s0)"
    using assms by simp
  from assign_priorities_known [OF inv0, of gnext ops]
  show "known_operations (set_new_operation_priorities gnext ops current s) =
           set (prioritized_operations (set_new_operation_priorities gnext ops current s))"
    and "set ops \<subseteq> known_operations (set_new_operation_priorities gnext ops current s)"
    unfolding set_new_operation_priorities_def by blast+
qed

lemma scan_prioritized_Inr:
  "scan_prioritized ps ops = Inr n \<Longrightarrow> n \<in> set ps \<and> n \<in> set ops"
  by (induction ps) (auto simp: scan_operations_eq split: if_splits)

lemma scan_prioritized_total:
  "set ops \<subseteq> set ps \<Longrightarrow> ops \<noteq> [] \<Longrightarrow> \<exists>n. scan_prioritized ps ops = Inr n"
proof -
  assume sub: "set ops \<subseteq> set ps" and ne: "ops \<noteq> []"
  then obtain x where "x \<in> set ps" "x \<in> set ops" by (cases ops) auto
  then have "List.find (\<lambda>p. p \<in> set ops) ps \<noteq> None"
    by (auto simp: find_None_iff)
  then show ?thesis by (auto simp: scan_prioritized_find)
qed

lemma try_deprioritize_cases:
  assumes "try_deprioritize_operation_with_highest_priority ops s = Inr (b, s')"
  shows "s' = s \<or>
         (\<exists>op. op \<in> set (prioritized_operations s) \<and>
            s' = s\<lparr> prioritized_operations := removeAll op (prioritized_operations s) @ [op] \<rparr>)"
proof (cases "length ops \<le> 1 \<or> scheduled_steps s \<notin> priority_change_points s")
  case True
  with assms have "s' = s"
    by (simp add: try_deprioritize_operation_with_highest_priority_def split: if_splits)
  then show ?thesis ..
next
  case False
  show ?thesis
  proof (cases "scan_prioritized (prioritized_operations s) ops")
    case (Inl e)
    with False assms show ?thesis
      by (simp add: try_deprioritize_operation_with_highest_priority_def
          get_operation_with_highest_priority_def)
  next
    case (Inr op)
    from scan_prioritized_Inr [OF Inr] have "op \<in> set (prioritized_operations s)" by simp
    moreover from False assms Inr
    have "s' = s\<lparr> prioritized_operations := removeAll op (prioritized_operations s) @ [op] \<rparr>"
      by (simp add: try_deprioritize_operation_with_highest_priority_def
          get_operation_with_highest_priority_def)
    ultimately show ?thesis by blast
  qed
qed

lemma try_deprioritize_known:
  assumes "known_operations s = set (prioritized_operations s)"
    and "try_deprioritize_operation_with_highest_priority ops s = Inr (b, s')"
  shows "known_operations s' = set (prioritized_operations s')"
    and "set (prioritized_operations s') = set (prioritized_operations s)"
    and "scheduled_steps s' = scheduled_steps s"
proof -
  from try_deprioritize_cases [OF assms(2)]
  have "known_operations s' = known_operations s \<and>
        set (prioritized_operations s') = set (prioritized_operations s) \<and>
        scheduled_steps s' = scheduled_steps s"
  proof (elim disjE exE conjE)
    assume "s' = s"
    then show ?thesis by simp
  next
    fix op
    assume "op \<in> set (prioritized_operations s)"
      and "s' = s\<lparr> prioritized_operations := removeAll op (prioritized_operations s) @ [op] \<rparr>"
    then show ?thesis by (simp add: insert_absorb)
  qed
  with assms(1) show "known_operations s' = set (prioritized_operations s')"
    and "set (prioritized_operations s') = set (prioritized_operations s)"
    and "scheduled_steps s' = scheduled_steps s" by simp_all
qed

lemma try_deprioritize_total:
  assumes "set ops \<subseteq> set (prioritized_operations s)"
  shows "\<exists>b s'. try_deprioritize_operation_with_highest_priority ops s = Inr (b, s')"
proof (cases "length ops \<le> 1 \<or> scheduled_steps s \<notin> priority_change_points s")
  case True
  then show ?thesis by (auto simp: try_deprioritize_operation_with_highest_priority_def)
next
  case False
  then have "ops \<noteq> []" by auto
  from scan_prioritized_total [OF assms this] False show ?thesis
    by (auto simp: try_deprioritize_operation_with_highest_priority_def
        get_operation_with_highest_priority_def)
qed

lemma next_operation_known:
  assumes "known_operations s = set (prioritized_operations s)"
  shows "known_operations (snd (next_operation gnext ops current s)) =
           set (prioritized_operations (snd (next_operation gnext ops current s)))"
proof -
  let ?s1 = "set_new_operation_priorities gnext ops current s"
  have inv1: "known_operations ?s1 = set (prioritized_operations ?s1)"
    using assms by (rule set_new_operation_priorities_known)
  show ?thesis
  proof (cases "try_deprioritize_operation_with_highest_priority ops ?s1")
    case (Inl e)
    then show ?thesis using inv1 by (simp add: next_operation_def)
  next
    case (Inr bs)
    obtain b s2 where bs: "bs = (b, s2)" by (cases bs)
    from try_deprioritize_known(1) [OF inv1 Inr [unfolded bs]] Inr bs
    show ?thesis by (simp add: next_operation_def Let_def)
  qed
qed

lemma prepare_next_iteration_known:
  "known_operations s = set (prioritized_operations s) \<Longrightarrow>
   known_operations (prepare_next_iteration gnext iteration s) =
     set (prioritized_operations (prepare_next_iteration gnext iteration s))"
  by (simp add: prepare_next_iteration_def shuffle_priority_change_points_def
      Let_def split: prod.splits)

lemma pct_reachable_known:
  "pct_reachable gnext s \<Longrightarrow> known_operations s = set (prioritized_operations s)"
proof (induction rule: pct_reachable.induct)
  case (constructed g seed bound)
  show ?case by (simp add: PCTStrategy_def)
next
  case (after_next_operation s ops current)
  from after_next_operation.IH show ?case by (rule next_operation_known)
next
  case (after_next_boolean s)
  then show ?case by (simp add: next_boolean_def split: prod.splits)
next
  case (after_next_integer s max_value)
  then show ?case by (simp add: next_integer_def Let_def split: prod.splits)
next
  case (after_prepare_next_iteration s iteration)
  from after_prepare_next_iteration.IH show ?case by (rule prepare_next_iteration_known)
qed


lemma shuffle_loop_set:
  "i < length xs \<Longrightarrow>
   set (fst (shuffle_loop gnext i xs g)) = set xs \<and> length (fst (shuffle_loop gnext i xs g)) = length xs"
proof (induction i arbitrary: xs g)
  case 0
  then show ?case by simp
next
  case (Suc i)
  obtain r g' where d: "gnext g = (r, g')" by (cases "gnext g")
  let ?point = "unat r mod length xs"
  let ?xs' = "xs[Suc i := xs ! ?point, ?point := xs ! Suc i]"
  have "0 < length xs" using Suc.prems by linarith
  then have p: "?point < length xs" by (rule mod_less_divisor)
  have len: "length ?xs' = length xs" by simp
  have st: "set ?xs' = set xs" using Suc.prems p by (rule set_swap)
  have "i < length ?xs'" using Suc.prems by simp
  from Suc.IH [OF this, of g'] st len d show ?case by (simp add: Let_def)
qed

lemma insert_change_points_eq:
  "insert_change_points count xs cps = cps \<union> set (take count xs)"
proof (induction xs arbitrary: count cps)
  case Nil
  then show ?case by simp
next
  case (Cons p ps)
  show ?case
  proof (cases count)
    case 0
    then show ?thesis by simp
  next
    case (Suc c)
    then show ?thesis using Cons.IH [of c "insert p cps"] by simp
  qed
qed

lemma shuffle_priority_change_points_ok:
  assumes "priority_change_points s = {}"
  shows "change_points_ok (shuffle_priority_change_points gnext s)"
proof (cases "schedule_length s > 1")
  case False
  with assms show ?thesis
    by (simp add: shuffle_priority_change_points_def change_points_ok_def)
next
  case True
  let ?range = "[1 ..< schedule_length s]"
  obtain shuffled g' where sh: "shuffle_loop gnext (length ?range - 1) ?range (generator s) = (shuffled, g')"
    by (cases "shuffle_loop gnext (length ?range - 1) ?range (generator s)")
  have "length ?range - 1 < length ?range" using True by simp
  from shuffle_loop_set [OF this, of gnext "generator s"] sh
  have st: "set shuffled = set ?range" by simp
  let ?cps = "set (take (max_priority_switches s) shuffled)"
  have eq: "priority_change_points (shuffle_priority_change_points gnext s) = ?cps"
    using True sh assms
    by (simp add: shuffle_priority_change_points_def Let_def insert_change_points_eq)
  have "card ?cps \<le> length (take (max_priority_switches s) shuffled)" by (rule card_length)
  then have c: "card ?cps \<le> max_priority_switches s" by simp
  have "?cps \<subseteq> set shuffled" by (rule set_take_subset)
  with st have r: "\<forall>p \<in> ?cps. 1 \<le> p \<and> p < schedule_length s" by auto
  have keep: "max_priority_switches (shuffle_priority_change_points gnext s) = max_priority_switches s"
    "schedule_length (shuffle_priority_change_points gnext s) = schedule_length s"
    using sh by (simp_all add: shuffle_priority_change_points_def Let_def)
  show ?thesis
    unfolding change_points_ok_def eq keep using c r by simp
qed

lemma prepare_next_iteration_ok:
  assumes "change_points_ok s"
  shows "change_points_ok (prepare_next_iteration gnext iteration s)"
proof (cases "iteration > 1")
  case False
  with assms show ?thesis by (simp add: prepare_next_iteration_def)
next
  case True
  let ?s1 = "if schedule_length s < scheduled_steps s
                   then s\<lparr> schedule_length := scheduled_steps s \<rparr> else s"
  let ?s2 = "?s1\<lparr> scheduled_steps := 0, prioritized_operations := [],
                      known_operations := {}, priority_change_points := {} \<rparr>"
  have "priority_change_points ?s2 = {}" by simp
  from shuffle_priority_change_points_ok [OF this, of gnext] True show ?thesis
    by (simp add: prepare_next_iteration_def Let_def)
qed

lemma assign_priority_frame: "same_change_points s (assign_priority gnext next_op s)"
  by (simp add: same_change_points_def assign_priority_def Let_def split: prod.splits)

lemma assign_priorities_frame: "same_change_points s (assign_priorities gnext ops s)"
proof (induction ops arbitrary: s)
  case Nil
  show ?case by (simp add: same_change_points_def)
next
  case (Cons next_op rest)
  from Cons.IH [of "assign_priority gnext next_op s"] assign_priority_frame [of s gnext next_op]
  show ?case by (simp add: same_change_points_def)
qed

lemma set_new_operation_priorities_frame:
  "same_change_points s (set_new_operation_priorities gnext ops current s)"
proof -
  let ?s0 = "if length (prioritized_operations s) = 0
        then s\<lparr> prioritized_operations := prioritized_operations s @ [current],
                known_operations := insert current (known_operations s) \<rparr>
        else s"
  have "same_change_points s ?s0" by (simp add: same_change_points_def)
  moreover have "same_change_points ?s0 (assign_priorities gnext ops ?s0)"
    by (rule assign_priorities_frame)
  ultimately have "same_change_points s (assign_priorities gnext ops ?s0)"
    unfolding same_change_points_def by (elim conjE) (simp only:)
  then show ?thesis by (simp only: set_new_operation_priorities_def)
qed

lemma next_operation_frame: "same_change_points s (snd (next_operation gnext ops current s))"
proof -
  let ?s1 = "set_new_operation_priorities gnext ops current s"
  have f1: "same_change_points s ?s1" by (rule set_new_operation_priorities_frame)
  show ?thesis
  proof (cases "try_deprioritize_operation_with_highest_priority ops ?s1")
    case (Inl e)
    then show ?thesis using f1 by (simp add: next_operation_def)
  next
    case (Inr bs)
    obtain b s2 where bs: "bs = (b, s2)" by (cases bs)
    from try_deprioritize_cases [OF Inr [unfolded bs]] have "same_change_points ?s1 s2"
      by (auto simp: same_change_points_def)
    with f1 Inr bs show ?thesis
      by (simp add: next_operation_def Let_def same_change_points_def)
  qed
qed

lemma pct_reachable_change_points_ok:
  "pct_reachable gnext s \<Longrightarrow> change_points_ok s"
proof (induction rule: pct_reachable.induct)
  case (constructed g seed bound)
  show ?case by (simp add: change_points_ok_def PCTStrategy_def)
next
  case (after_next_operation s ops current)
  from after_next_operation.IH next_operation_frame [of s gnext ops current]
  show ?case by (simp add: change_points_ok_def same_change_points_def)
next
  case (after_next_boolean s)
  then show ?case by (simp add: change_points_ok_def next_boolean_def split: prod.splits)
next
  case (after_next_integer s max_value)
  then show ?case by (simp add: change_points_ok_def next_integer_def Let_def split: prod.splits)
next
  case (after_prepare_next_iteration s iteration)
  from after_prepare_next_iteration.IH show ?case by (rule prepare_next_iteration_ok)
qed

text \<open>Evaluation of the two shuffles at numerals.\<close>

lemma shuffle_loop_numeral:
  "shuffle_loop gnext (numeral n) xs g =
     (case gnext g of (r, g') \<Rightarrow>
        shuffle_loop gnext (pred_numeral n)
          (xs[numeral n := xs ! (unat r mod length xs), unat r mod length xs := xs ! numeral n]) g')"
  by (simp add: numeral_eq_Suc Let_def)

lemma shuffle_loop_1:
  "shuffle_loop gnext (Suc 0) xs g =
     (case gnext g of (r, g') \<Rightarrow>
        (xs[Suc 0 := xs ! (unat r mod length xs), unat r mod length xs := xs ! Suc 0], g'))"
  using shuffle_loop.simps(2) [of gnext 0 xs g] by (simp add: Let_def)

lemma swap3: "[a, b, c][2 := x] = [a, b, x]" "[a, b, c][1 := x] = [a, x, c]" "[a, b, c][0 := x] = [x, b, c]"
  by (simp_all add: numeral_2_eq_2)

lemma fisher_yates_spec_numeral:
  "fisher_yates_spec gnext (numeral n) xs g =
     (case gnext g of (r, g') \<Rightarrow>
        fisher_yates_spec gnext (pred_numeral n)
          (xs[numeral n := xs ! (unat r mod (numeral n + 1)), unat r mod (numeral n + 1) := xs ! numeral n]) g')"
  by (simp add: numeral_eq_Suc Let_def)

lemma fisher_yates_spec_1:
  "fisher_yates_spec gnext (Suc 0) xs g =
     (case gnext g of (r, g') \<Rightarrow>
        (xs[Suc 0 := xs ! (unat r mod 2), unat r mod 2 := xs ! Suc 0], g'))"
  using fisher_yates_spec.simps(2) [of gnext 0 xs g] by (simp add: Let_def numeral_2_eq_2)

lemma fisher_yates_spec_keeps_tail:
  "i < length xs \<Longrightarrow> drop (Suc i) (fst (fisher_yates_spec gnext i xs g)) = drop (Suc i) xs"
proof (induction i arbitrary: xs g)
  case 0
  then show ?case by simp
next
  case (Suc i)
  obtain r g' where d: "gnext g = (r, g')" by (cases "gnext g")
  let ?point = "unat r mod (Suc i + 1)"
  let ?xs' = "xs[Suc i := xs ! ?point, ?point := xs ! Suc i]"
  have "?point < Suc i + 1" by (rule mod_less_divisor) simp
  then have p: "?point \<le> Suc i" by simp
  have "i < length ?xs'" using Suc.prems by simp
  from Suc.IH [OF this, of g']
  have "drop (Suc i) (fst (fisher_yates_spec gnext i ?xs' g')) = drop (Suc i) ?xs'" .
  then have "drop 1 (drop (Suc i) (fst (fisher_yates_spec gnext i ?xs' g'))) = drop 1 (drop (Suc i) ?xs')"
    by simp
  then have "drop (Suc (Suc i)) (fst (fisher_yates_spec gnext i ?xs' g')) = drop (Suc (Suc i)) ?xs'"
    by (simp only: drop_drop) simp
  also have "\<dots> = drop (Suc (Suc i)) xs" using p by simp
  finally show ?case using d by (simp add: Let_def)
qed

lemma upt_1_4: "[Suc 0 ..< 4] = [1, 2, 3]"
  by (simp add: upt_rec)

lemma four_steps_eq:
  "four_steps = \<lparr> generator = [2, 2], iteration_seed = 0, max_priority_switches = 1,
       prioritized_operations = [], known_operations = {}, priority_change_points = {},
       scheduled_steps = 4, schedule_length = 0 \<rparr>"
  by (simp add: four_steps_def next_boolean_def PCTStrategy_def size_t_inc_def)

lemma four_steps_reachable: "pct_reachable replay_next four_steps"
  unfolding four_steps_def by (intro pct_reachable.intros)


text \<open>What the loop of \<open>set_new_operation_priorities\<close> does to the priority list.\<close>

lemma assign_priorities_fold:
  "assign_priorities gnext ops s = fold (assign_priority gnext) ops s"
  by (induction ops arbitrary: s) simp_all

lemma assign_priority_inserts:
  assumes "prioritized_operations s \<noteq> []" and "next_op \<notin> known_operations s"
  shows "\<exists>k. k = unat (fst (gnext (generator s))) mod length (prioritized_operations s) + 1 \<and>
             1 \<le> k \<and> k \<le> length (prioritized_operations s) \<and>
             prioritized_operations (assign_priority gnext next_op s) =
               take k (prioritized_operations s) @ [next_op] @ drop k (prioritized_operations s)"
  using assms by (simp add: assign_priority_def Let_def Suc_leI split: prod.splits)

lemma assign_priority_set:
  assumes "known_operations s = set (prioritized_operations s)"
  shows "set (prioritized_operations (assign_priority gnext next_op s)) =
           insert next_op (set (prioritized_operations s))"
proof (cases "next_op \<in> known_operations s")
  case True
  with assms show ?thesis by (auto simp: assign_priority_def)
next
  case False
  have "set (take n xs) \<union> set (drop n xs) = set xs" for n and xs :: "nat list"
    by (simp only: set_append [symmetric] append_take_drop_id)
  with False show ?thesis
    by (simp add: assign_priority_def Let_def split: prod.splits)
qed

lemma assign_priorities_set:
  assumes "known_operations s = set (prioritized_operations s)"
  shows "set (prioritized_operations (assign_priorities gnext ops s)) =
           set (prioritized_operations s) \<union> set ops"
  using assms
proof (induction ops arbitrary: s)
  case Nil
  show ?case by simp
next
  case (Cons x rest)
  have inv: "known_operations (assign_priority gnext x s) =
               set (prioritized_operations (assign_priority gnext x s))"
    using assign_priority_known [OF Cons.prems, where gnext=gnext and next_op=x] by blast
  from Cons.IH [OF inv] assign_priority_set [OF Cons.prems, of gnext x]
  show ?case by auto
qed

lemma assign_priority_filter:
  assumes "A \<subseteq> known_operations s"
  shows "filter (\<lambda>p. p \<in> A) (prioritized_operations (assign_priority gnext next_op s)) =
           filter (\<lambda>p. p \<in> A) (prioritized_operations s)"
    and "A \<subseteq> known_operations (assign_priority gnext next_op s)"
proof -
  have tk: "filter P (take n xs) @ filter P (drop n xs) = filter P xs"
    for P n and xs :: "nat list"
    by (simp only: filter_append [symmetric] append_take_drop_id)
  show "filter (\<lambda>p. p \<in> A) (prioritized_operations (assign_priority gnext next_op s)) =
           filter (\<lambda>p. p \<in> A) (prioritized_operations s)"
  proof (cases "next_op \<in> known_operations s")
    case True
    then show ?thesis by (simp add: assign_priority_def)
  next
    case False
    with assms have "next_op \<notin> A" by blast
    with False show ?thesis
      by (simp add: assign_priority_def Let_def tk split: prod.splits)
  qed
  show "A \<subseteq> known_operations (assign_priority gnext next_op s)"
    using assms by (auto simp: assign_priority_def Let_def split: prod.splits)
qed

lemma assign_priorities_filter:
  assumes "A \<subseteq> known_operations s"
  shows "filter (\<lambda>p. p \<in> A) (prioritized_operations (assign_priorities gnext ops s)) =
           filter (\<lambda>p. p \<in> A) (prioritized_operations s)"
  using assms
proof (induction ops arbitrary: s)
  case Nil
  show ?case by simp
next
  case (Cons x rest)
  from Cons.IH [OF assign_priority_filter(2) [OF Cons.prems]]
    assign_priority_filter(1) [OF Cons.prems]
  show ?case by simp
qed

lemma assign_priority_length:
  "length (prioritized_operations (assign_priority gnext next_op s)) =
     length (prioritized_operations s) + (if next_op \<in> known_operations s then 0 else 1)"
  "known_operations (assign_priority gnext next_op s) = insert next_op (known_operations s)"
  by (auto simp: assign_priority_def Let_def split: prod.splits)

lemma assign_priorities_length:
  "length (prioritized_operations (assign_priorities gnext ops s)) =
     length (prioritized_operations s) + card (set ops - known_operations s)"
proof (induction ops arbitrary: s)
  case Nil
  show ?case by simp
next
  case (Cons x rest)
  let ?s1 = "assign_priority gnext x s"
  let ?K = "known_operations s"
  have step: "assign_priorities gnext (x # rest) s = assign_priorities gnext rest ?s1"
    by simp
  have ih: "length (prioritized_operations (assign_priorities gnext rest ?s1)) =
              length (prioritized_operations ?s1) + card (set rest - insert x ?K)"
    using Cons.IH [of ?s1] by (simp only: assign_priority_length(2))
  show ?case
  proof (cases "x \<in> ?K")
    case True
    have l: "length (prioritized_operations ?s1) = length (prioritized_operations s)"
      using True by (simp only: assign_priority_length(1) if_True add_0_right)
    have d: "set (x # rest) - ?K = set rest - insert x ?K"
      using True by auto
    show ?thesis
      by (simp only: step ih l d)
  next
    case False
    have l: "length (prioritized_operations ?s1) = Suc (length (prioritized_operations s))"
      using False by (simp add: assign_priority_length(1))
    have e: "set (x # rest) - ?K = insert x (set rest - insert x ?K)"
      using False by auto
    have c: "card (insert x (set rest - insert x ?K)) = Suc (card (set rest - insert x ?K))"
      by (rule card_insert_disjoint) simp_all
    have d: "card (set (x # rest) - ?K) = Suc (card (set rest - insert x ?K))"
      by (simp only: e c)
    show ?thesis
      by (simp only: step ih l d add_Suc add_Suc_right)
  qed
qed

lemma after_first_step_fields:
  "prioritized_operations (snd (next_operation replay_next [3] 3 (PCTStrategy [1, 0] 0 0))) = [3]"
  "known_operations (snd (next_operation replay_next [3] 3 (PCTStrategy [1, 0] 0 0))) = {3}"
  "generator (snd (next_operation replay_next [3] 3 (PCTStrategy [1, 0] 0 0))) = [1, 0]"
  by (simp_all add: next_operation_def set_new_operation_priorities_def assign_priority_def
      try_deprioritize_operation_with_highest_priority_def
      get_operation_with_highest_priority_def PCTStrategy_def Let_def)

section \<open>Auxiliary facts about the scheduler kernel\<close>

lemma enabled_ids_iff: "i \<in> set (enabled_ids os) \<longleftrightarrow> (i, True) \<in> set os"
  by (induction os) (auto simp: enabled_ids_def)

lemma ops_enable_member:
  "b \<in> fst ` set os \<Longrightarrow> (b, True) \<in> set (ops_enable b os)"
  by (induction os) (auto simp: ops_enable_def)

lemma ops_enable_keeps:
  "(i, True) \<in> set os \<Longrightarrow> (i, True) \<in> set (ops_enable b os)"
  by (induction os) (auto simp: ops_enable_def)

lemma ops_enable_members: "fst ` set (ops_enable b os) = fst ` set os"
  by (induction os) (auto simp: ops_enable_def)

lemma on_resource_signal_keeps:
  "is_scheduled (snd (on_resource_signal r op)) = is_scheduled op"
  "op_id (snd (on_resource_signal r op)) = op_id op"
  "(status (snd (on_resource_signal r op)) = Completed) = (status op = Completed)"
  by (auto simp: on_resource_signal_def Let_def split: option.splits prod.splits)

lemma on_join_operation_keeps:
  "is_scheduled (snd (on_join_operation j op)) = is_scheduled op"
  "op_id (snd (on_join_operation j op)) = op_id op"
  "(status (snd (on_join_operation j op)) = Completed) = (status op = Completed)"
  by (auto simp: on_join_operation_def Let_def split: option.splits prod.splits)

lemma signal_blocked_effect:
  assumes "distinct bs"
    and "\<forall>b \<in> set bs. \<exists>op. map_of (operation_map k) b = Some op \<and> op_id op = b"
  shows "\<exists>k'. signal_blocked r bs k = (Normal, k') \<and>
           resource_map k' = resource_map k \<and>
           scheduled_op_id k' = scheduled_op_id k \<and>
           last_error_code k' = last_error_code k \<and>
           (\<forall>i. map_option is_scheduled (map_of (operation_map k') i) =
                map_option is_scheduled (map_of (operation_map k) i)) \<and>
           (\<forall>i. i \<notin> set bs \<longrightarrow> map_of (operation_map k') i = map_of (operation_map k) i) \<and>
           fst ` set (operations k') = fst ` set (operations k) \<and>
           (\<forall>i. (i, True) \<in> set (operations k) \<longrightarrow> (i, True) \<in> set (operations k')) \<and>
           (\<forall>b \<in> set bs. \<forall>op. map_of (operation_map k) b = Some op \<and>
                fst (on_resource_signal r op) \<and> b \<in> fst ` set (operations k)
                \<longrightarrow> (b, True) \<in> set (operations k'))"
  using assms
proof (induction bs arbitrary: k)
  case Nil
  show ?case by simp
next
  case (Cons b rest)
  from Cons.prems(2) obtain op where op: "map_of (operation_map k) b = Some op" "op_id op = b"
    by auto
  obtain sat op' where ors: "on_resource_signal r op = (sat, op')"
    by (cases "on_resource_signal r op")
  have keep: "is_scheduled op' = is_scheduled op" "op_id op' = b"
    using on_resource_signal_keeps(1,2) [of r op] ors op(2) by simp_all
  let ?k1 = "k\<lparr> operation_map := AList.update b op' (operation_map k),
                 operations := (if sat then ops_enable (op_id op') (operations k)
                                else operations k) \<rparr>"
  have step: "signal_blocked r (b # rest) k = signal_blocked r rest ?k1"
    using op ors by simp
  have d: "distinct rest" and nb: "b \<notin> set rest" using Cons.prems(1) by simp_all
  have pre: "\<forall>c \<in> set rest. \<exists>op. map_of (operation_map ?k1) c = Some op \<and> op_id op = c"
    using Cons.prems(2) nb by (auto simp: update_conv')
  from Cons.IH [OF d pre] obtain k' where
    r: "signal_blocked r rest ?k1 = (Normal, k')"
    and a1: "resource_map k' = resource_map ?k1"
    and a2: "scheduled_op_id k' = scheduled_op_id ?k1"
    and a3: "last_error_code k' = last_error_code ?k1"
    and a4: "\<forall>i. map_option is_scheduled (map_of (operation_map k') i) =
                map_option is_scheduled (map_of (operation_map ?k1) i)"
    and a5: "\<forall>i. i \<notin> set rest \<longrightarrow> map_of (operation_map k') i = map_of (operation_map ?k1) i"
    and a6: "fst ` set (operations k') = fst ` set (operations ?k1)"
    and a7: "\<forall>i. (i, True) \<in> set (operations ?k1) \<longrightarrow> (i, True) \<in> set (operations k')"
    and a8: "\<forall>c \<in> set rest. \<forall>op. map_of (operation_map ?k1) c = Some op \<and>
                fst (on_resource_signal r op) \<and> c \<in> fst ` set (operations ?k1)
                \<longrightarrow> (c, True) \<in> set (operations k')"
    by blast
  have m1: "fst ` set (operations ?k1) = fst ` set (operations k)"
    by (simp add: ops_enable_members)
  have k1_keeps: "\<forall>i. (i, True) \<in> set (operations k) \<longrightarrow> (i, True) \<in> set (operations ?k1)"
    by (simp add: ops_enable_keeps)
  have c4: "\<forall>i. map_option is_scheduled (map_of (operation_map k') i) =
                map_option is_scheduled (map_of (operation_map k) i)"
    using a4 op keep by (auto simp: update_conv')
  have c5: "\<forall>i. i \<notin> set (b # rest) \<longrightarrow> map_of (operation_map k') i = map_of (operation_map k) i"
    using a5 by (auto simp: update_conv')
  have c8: "\<forall>c \<in> set (b # rest). \<forall>op. map_of (operation_map k) c = Some op \<and>
                fst (on_resource_signal r op) \<and> c \<in> fst ` set (operations k)
                \<longrightarrow> (c, True) \<in> set (operations k')"
  proof (intro ballI allI impI)
    fix c opc
    assume c: "c \<in> set (b # rest)"
      and h: "map_of (operation_map k) c = Some opc \<and>
                fst (on_resource_signal r opc) \<and> c \<in> fst ` set (operations k)"
    show "(c, True) \<in> set (operations k')"
    proof (cases "c = b")
      case True
      with h op ors have "sat" by simp
      with True h keep have "(b, True) \<in> set (operations ?k1)"
        by (simp add: ops_enable_member)
      with a7 True show ?thesis by blast
    next
      case False
      with c have cr: "c \<in> set rest" by simp
      from False h have "map_of (operation_map ?k1) c = Some opc"
        by (simp add: update_conv')
      with a8 cr h m1 show ?thesis by blast
    qed
  qed
  show ?case
    unfolding step using r a1 a2 a3 c4 c5 c8 a6 m1 a7 k1_keeps by auto
qed

lemma enabled_ids_disable: "i \<notin> set (enabled_ids (ops_disable i os))"
  by (induction os) (auto simp: enabled_ids_def ops_disable_def split: if_splits)

lemma create_operation_inner_duplicate:
  "fst (create_operation_inner operation_id k) = Throw DuplicateOperation \<longleftrightarrow>
     (\<exists>op. map_of (operation_map k) operation_id = Some op \<and> status op \<noteq> Completed)"
  by (auto simp: create_operation_inner_def Let_def split: option.splits)

lemma insert_operation_present:
  "map_of (operation_map k) i = Some op \<Longrightarrow>
   map_option status (map_of (operation_map (insert_operation i k)) i) = Some (status op)"
  by (simp add: insert_operation_def map_insert_def schedule_first_def Let_def update_conv')

lemma create_operation_inner_revive:
  assumes "map_of (operation_map k) operation_id = Some op" and "status op = Completed"
  shows "fst (create_operation_inner operation_id k) = Normal"
    and "map_option status (map_of (operation_map (snd (create_operation_inner operation_id k))) operation_id) = Some None_status"
  using assms
    insert_operation_present [of "k\<lparr> operation_map := AList.update operation_id (op\<lparr> status := None_status, is_scheduled := False \<rparr>) (operation_map k) \<rparr>" operation_id "op\<lparr> status := None_status, is_scheduled := False \<rparr>"]
  by (simp_all add: create_operation_inner_def Let_def update_conv')


text \<open>The definitions that a run on a concrete state unfolds.\<close>

lemmas kernel_defs =
  attach_def detach_def create_operation_def start_operation_def complete_operation_def
  join_operation_def join_operations_def create_resource_def delete_resource_def
  wait_resource_def wait_resources_def signal_resource_def signal_resource_operation_def
  schedule_next_def resume_parked_def resume_pending_def finish_def
  create_operation_inner_def start_operation_inner_def schedule_next_inner_def
  insert_operation_def map_insert_def schedule_first_def block_scheduled_operation_def
  add_joiner_def main_op_id_def SchedulerClient_def Operation_def
  Operation_join_operation_def Operation_join_operations_def on_join_operation_def
  wait_resource_signal_def wait_resource_signals_def on_resource_signal_def
  ops_insert_def ops_enable_def ops_disable_def ops_remove_def ops_size_def enabled_ids_def
  size_t_inc_def size_t_dec_def Let_def

lemmas pct_defs =
  pct_interface_def next_operation_def set_new_operation_priorities_def assign_priority_def
  try_deprioritize_operation_with_highest_priority_def get_operation_with_highest_priority_def
  PCTStrategy_def prepare_next_iteration_def shuffle_priority_change_points_def

text \<open>The fields of the concrete runs.\<close>

lemmas example_defs = example_strategy_def example_client_def kernel_defs pct_defs

lemma after_attach_fields:
  "operation_map after_attach = [(0, (Operation 0)\<lparr> status := Enabled, is_scheduled := True \<rparr>)]"
  "operations after_attach = [(0, True)]"
  "resource_map after_attach = []"
  "scheduled_op_id after_attach = 0"
  "exploration_strategy after_attach = PCT_strategy"
  "is_attached after_attach"
  by (simp_all add: after_attach_def example_defs)

lemma main_waits_alone_fields:
  "operations main_waits_alone = [(0, False)]"
  "pending_start_operation_count main_waits_alone = 0"
  "exploration_strategy main_waits_alone = PCT_strategy"
  "is_attached main_waits_alone"
  by (simp_all add: main_waits_alone_def example_defs)

lemma main_waits_beside_1_fields:
  "operation_map main_waits_beside_1 =
     [(0, \<lparr> op_id = 0, status = Blocked, is_scheduled = False, blocked_operation_ids = [],
            join_target = None, waiting_resources = Some ([5], WaitAll) \<rparr>),
      (1, \<lparr> op_id = 1, status = Enabled, is_scheduled = True, blocked_operation_ids = [],
            join_target = None, waiting_resources = None \<rparr>)]"
  "operations main_waits_beside_1 = [(0, False), (1, True)]"
  "resource_map main_waits_beside_1 = [(5, [0])]"
  "scheduled_op_id main_waits_beside_1 = 1"
  "exploration_strategy main_waits_beside_1 = PCT_strategy"
  "is_attached main_waits_beside_1"
  by (simp_all add: main_waits_beside_1_def example_defs)

lemma joined_and_completed_fields:
  "operation_map joined_and_completed =
     [(0, \<lparr> op_id = 0, status = Enabled, is_scheduled = True, blocked_operation_ids = [],
            join_target = None, waiting_resources = None \<rparr>),
      (1, \<lparr> op_id = 1, status = Completed, is_scheduled = True, blocked_operation_ids = [0],
            join_target = None, waiting_resources = None \<rparr>)]"
  "is_attached joined_and_completed"
  by (simp_all add: joined_and_completed_def example_defs)

lemma operation_3_completed_fields:
  "operation_map operation_3_completed =
     [(0, \<lparr> op_id = 0, status = Enabled, is_scheduled = True, blocked_operation_ids = [],
            join_target = None, waiting_resources = None \<rparr>),
      (3, \<lparr> op_id = 3, status = Completed, is_scheduled = False, blocked_operation_ids = [],
            join_target = None, waiting_resources = None \<rparr>)]"
  "exploration_strategy operation_3_completed = PCT_strategy"
  "is_attached operation_3_completed"
  by (simp_all add: operation_3_completed_def example_defs)

lemma operation_3_revived_fields:
  "operation_map operation_3_revived =
     [(0, \<lparr> op_id = 0, status = Enabled, is_scheduled = True, blocked_operation_ids = [],
            join_target = None, waiting_resources = None \<rparr>),
      (3, \<lparr> op_id = 3, status = None_status, is_scheduled = False, blocked_operation_ids = [],
            join_target = None, waiting_resources = None \<rparr>)]"
  "exploration_strategy operation_3_revived = PCT_strategy"
  "is_attached operation_3_revived"
  by (simp_all add: operation_3_revived_def operation_3_completed_def example_defs)

lemma example_reachable:
  "reachable example_strategy after_attach"
  "reachable example_strategy joined_and_completed"
  unfolding after_attach_def joined_and_completed_def run.simps example_client_def
  by (intro reachable.intros)+

text \<open>What \<open>create_operation\<close> returns, and more concrete runs.\<close>

lemma insert_operation_last_error:
  "last_error_code (insert_operation i k) = last_error_code k"
  by (simp add: insert_operation_def schedule_first_def Let_def split: option.splits)

lemma create_operation_inner_outcome:
  "fst (create_operation_inner operation_id k) = Normal \<or>
   fst (create_operation_inner operation_id k) = Throw DuplicateOperation"
  "last_error_code (snd (create_operation_inner operation_id k)) = last_error_code k"
  by (simp_all add: create_operation_inner_def Let_def insert_operation_last_error
      split: option.splits)

lemma create_operation_guarded:
  assumes "exploration_strategy k \<noteq> None_strategy" and "is_attached k"
    and "operation_id \<noteq> main_op_id"
  shows "create_operation operation_id k = finish (create_operation_inner operation_id k)"
  using assms by (simp add: create_operation_def)

lemma finish_Normal:
  "fst r = Normal \<Longrightarrow> finish r = (Returns (last_error_code (snd r)), snd r)"
  by (cases r) (simp add: finish_def)

lemma finish_Throw:
  "fst r = Throw e \<Longrightarrow> fst (finish r) = Returns e"
  by (cases r) (simp add: finish_def)

lemma create_operation_duplicate_iff:
  assumes "exploration_strategy k \<noteq> None_strategy" and "is_attached k"
    and "operation_id \<noteq> main_op_id"
  shows "(\<exists>op. map_of (operation_map k) operation_id = Some op \<and> status op \<noteq> Completed) \<Longrightarrow>
           fst (create_operation operation_id k) = Returns DuplicateOperation"
    and "last_error_code k \<noteq> DuplicateOperation \<Longrightarrow>
           fst (create_operation operation_id k) = Returns DuplicateOperation \<Longrightarrow>
           (\<exists>op. map_of (operation_map k) operation_id = Some op \<and> status op \<noteq> Completed)"
    and "map_of (operation_map k) operation_id = Some op \<Longrightarrow> status op = Completed \<Longrightarrow>
           fst (create_operation operation_id k) = Returns (last_error_code k) \<and>
           map_option status
             (map_of (operation_map (snd (create_operation operation_id k))) operation_id) =
             Some None_status"
proof -
  note g = create_operation_guarded [OF assms]
  show "fst (create_operation operation_id k) = Returns DuplicateOperation"
    if "\<exists>op. map_of (operation_map k) operation_id = Some op \<and> status op \<noteq> Completed"
  proof -
    from that have "fst (create_operation_inner operation_id k) = Throw DuplicateOperation"
      by (simp only: create_operation_inner_duplicate)
    then show ?thesis unfolding g by (rule finish_Throw)
  qed
  show "\<exists>op. map_of (operation_map k) operation_id = Some op \<and> status op \<noteq> Completed"
    if le: "last_error_code k \<noteq> DuplicateOperation"
      and r: "fst (create_operation operation_id k) = Returns DuplicateOperation"
  proof (rule ccontr)
    assume "\<not> (\<exists>op. map_of (operation_map k) operation_id = Some op \<and> status op \<noteq> Completed)"
    then have "fst (create_operation_inner operation_id k) \<noteq> Throw DuplicateOperation"
      by (simp add: create_operation_inner_duplicate)
    with create_operation_inner_outcome(1) [of operation_id k]
    have "fst (create_operation_inner operation_id k) = Normal" by blast
    from finish_Normal [OF this]
    have "fst (create_operation operation_id k) = Returns (last_error_code k)"
      unfolding g by (simp add: create_operation_inner_outcome(2))
    with r le show False by simp
  qed
  show "fst (create_operation operation_id k) = Returns (last_error_code k) \<and>
           map_option status
             (map_of (operation_map (snd (create_operation operation_id k))) operation_id) =
             Some None_status"
    if m: "map_of (operation_map k) operation_id = Some op" and c: "status op = Completed"
  proof -
    from create_operation_inner_revive [OF m c]
    have n: "fst (create_operation_inner operation_id k) = Normal"
      and st: "map_option status
        (map_of (operation_map (snd (create_operation_inner operation_id k))) operation_id) =
        Some None_status"
      by simp_all
    from finish_Normal [OF n] st show ?thesis
      unfolding g by (simp add: create_operation_inner_outcome(2))
  qed
qed

lemma waiting_and_completed_fields:
  "operation_map waiting_and_completed =
     [(0, \<lparr> op_id = 0, status = Blocked, is_scheduled = False, blocked_operation_ids = [],
            join_target = None, waiting_resources = Some ([5], WaitAll) \<rparr>),
      (1, \<lparr> op_id = 1, status = Completed, is_scheduled = True, blocked_operation_ids = [],
            join_target = None, waiting_resources = None \<rparr>)]"
  "scheduled_op_id waiting_and_completed = 1"
  "exploration_strategy waiting_and_completed = PCT_strategy"
  "is_attached waiting_and_completed"
  by (simp_all add: waiting_and_completed_def example_defs)

lemma token_holder_revived_fields:
  "operation_map token_holder_revived =
     [(0, \<lparr> op_id = 0, status = Blocked, is_scheduled = False, blocked_operation_ids = [],
            join_target = None, waiting_resources = Some ([5], WaitAll) \<rparr>),
      (1, \<lparr> op_id = 1, status = None_status, is_scheduled = False, blocked_operation_ids = [],
            join_target = None, waiting_resources = None \<rparr>)]"
  "is_attached token_holder_revived"
  by (simp_all add: token_holder_revived_def example_defs)

lemma created_twice_fields:
  "operation_map created_twice =
     [(0, \<lparr> op_id = 0, status = Enabled, is_scheduled = True, blocked_operation_ids = [],
            join_target = None, waiting_resources = None \<rparr>),
      (7, \<lparr> op_id = 7, status = None_status, is_scheduled = False, blocked_operation_ids = [],
            join_target = None, waiting_resources = None \<rparr>)]"
  "last_error_code created_twice = DuplicateOperation"
  "exploration_strategy created_twice = PCT_strategy"
  "is_attached created_twice"
  by (simp_all add: created_twice_def example_defs)

lemma main_waits_alone_maps:
  "operation_map main_waits_alone =
     [(0, \<lparr> op_id = 0, status = Blocked, is_scheduled = True, blocked_operation_ids = [],
            join_target = None, waiting_resources = Some ([5], WaitAll) \<rparr>)]"
  "resource_map main_waits_alone = [(5, [0])]"
  by (simp_all add: main_waits_alone_def example_defs)

lemma after_deadlock_eq:
  "schedule_next example_strategy main_waits_alone =
     (Returns DeadlockDetected, main_waits_alone\<lparr> last_error_code := DeadlockDetected \<rparr>)"
  by (simp add: schedule_next_def schedule_next_inner_def finish_def ops_size_def
      main_waits_alone_fields)

lemma after_deadlock_fields:
  "operation_map after_deadlock =
     [(0, \<lparr> op_id = 0, status = Blocked, is_scheduled = True, blocked_operation_ids = [],
            join_target = None, waiting_resources = Some ([5], WaitAll) \<rparr>)]"
  "operations after_deadlock = [(0, False)]"
  "resource_map after_deadlock = [(5, [0])]"
  "pending_start_operation_count after_deadlock = 0"
  "exploration_strategy after_deadlock = PCT_strategy"
  "is_attached after_deadlock"
  by (simp_all add: after_deadlock_def after_deadlock_eq main_waits_alone_fields
      main_waits_alone_maps)

lemma after_deadlock_calls:
  "fst (schedule_next example_strategy after_deadlock) = Returns DeadlockDetected"
  "map fst (resource_map (snd (create_resource 6 after_deadlock))) = [5, 6]"
  by (simp_all add: schedule_next_def schedule_next_inner_def create_resource_def finish_def
      ops_size_def after_deadlock_fields)

lemma example_reachable_2:
  "reachable example_strategy waiting_and_completed"
  "reachable example_strategy token_holder_revived"
  unfolding waiting_and_completed_def token_holder_revived_def run.simps example_client_def
  by (intro reachable.intros)+

lemma operation_3_last_error:
  "last_error_code operation_3_completed = Success"
  "last_error_code operation_3_revived = Success"
  by (simp_all add: operation_3_revived_def operation_3_completed_def example_defs)

subsection \<open>The scheduling invariant is kept by every step\<close>

lemma sic_I:
  "(\<And>i op. map_of (operation_map k) i = Some op \<Longrightarrow> is_scheduled op \<Longrightarrow> status op \<noteq> Completed
      \<Longrightarrow> i = scheduled_op_id k) \<Longrightarrow> scheduled_is_current k"
  by (auto simp: scheduled_is_current_def)

lemma sic_D:
  "scheduled_is_current k \<Longrightarrow> map_of (operation_map k) i = Some op \<Longrightarrow> is_scheduled op \<Longrightarrow>
   status op \<noteq> Completed \<Longrightarrow> i = scheduled_op_id k"
  by (auto simp: scheduled_is_current_def)

lemma sic_same_map:
  "scheduled_is_current k \<Longrightarrow> operation_map k' = operation_map k \<Longrightarrow>
   scheduled_op_id k' = scheduled_op_id k \<Longrightarrow> scheduled_is_current k'"
  by (simp add: scheduled_is_current_def)

lemma sic_update:
  assumes "scheduled_is_current k"
    and "is_scheduled op' \<and> status op' \<noteq> Completed \<longrightarrow> i = scheduled_op_id k"
  shows "scheduled_is_current (k\<lparr> operation_map := AList.update i op' (operation_map k) \<rparr>)"
  using assms by (auto simp: scheduled_is_current_def update_conv' split: if_splits)

lemma sic_cong:
  "operation_map k' = operation_map k \<Longrightarrow> scheduled_op_id k' = scheduled_op_id k \<Longrightarrow>
   scheduled_is_current k' = scheduled_is_current k"
  by (simp add: scheduled_is_current_def)

lemma finish_sic:
  "scheduled_is_current (snd r) \<Longrightarrow> scheduled_is_current (snd (finish r))"
  by (cases r; cases "fst r") (auto simp: finish_def scheduled_is_current_def)

lemma schedule_first_sic:
  assumes "scheduled_is_current k" and "length (operation_map k) = 1"
    and "map_of (operation_map k) i \<noteq> None"
  shows "scheduled_is_current (schedule_first i k)"
proof -
  from assms(2) obtain j v where m: "operation_map k = [(j, v)]"
    by (cases "operation_map k") (auto simp: length_Suc_conv)
  with assms(3) have "j = i" by (simp split: if_splits)
  with m show ?thesis
    by (auto simp: schedule_first_def scheduled_is_current_def split: option.splits if_splits)
qed

lemma map_insert_present: "map_of (map_insert i v m) i \<noteq> None"
  by (simp add: map_insert_def map_add_def split: option.splits)

lemma insert_operation_sic:
  "scheduled_is_current k \<Longrightarrow> scheduled_is_current (insert_operation i k)"
proof -
  assume inv: "scheduled_is_current k"
  let ?k1 = "k\<lparr> operation_map := map_insert i (Operation i) (operation_map k) \<rparr>"
  have "scheduled_is_current ?k1"
    using inv by (auto simp: scheduled_is_current_def map_insert_def Operation_def split: option.splits if_splits)
  moreover have "map_of (operation_map ?k1) i \<noteq> None"
    by (simp add: map_insert_present)
  ultimately show ?thesis
    by (auto simp: insert_operation_def Let_def intro: schedule_first_sic)
qed

lemma create_operation_inner_sic:
  "scheduled_is_current k \<Longrightarrow> scheduled_is_current (snd (create_operation_inner i k))"
proof -
  assume inv: "scheduled_is_current k"
  show ?thesis
  proof (cases "map_of (operation_map k) i")
    case None
    have "scheduled_is_current (insert_operation i (insert_operation i k))"
      using inv by (intro insert_operation_sic)
    then show ?thesis using None
      by (simp add: create_operation_inner_def Let_def scheduled_is_current_def)
  next
    case (Some existing_op)
    show ?thesis
    proof (cases "status existing_op = Completed")
      case False
      with Some inv show ?thesis by (simp add: create_operation_inner_def)
    next
      case True
      let ?op' = "existing_op\<lparr> status := None_status, is_scheduled := False \<rparr>"
      let ?k1 = "k\<lparr> operation_map := AList.update i ?op' (operation_map k) \<rparr>"
      have "is_scheduled ?op' \<and> status ?op' \<noteq> Completed \<longrightarrow> i = scheduled_op_id k" by simp
      with inv have "scheduled_is_current ?k1"
        by (rule sic_update)
      then have "scheduled_is_current (insert_operation i ?k1)"
        by (rule insert_operation_sic)
      then show ?thesis using Some True
        by (simp add: create_operation_inner_def Let_def scheduled_is_current_def)
    qed
  qed
qed

lemma start_operation_inner_sic:
  "scheduled_is_current k \<Longrightarrow> scheduled_is_current (snd (start_operation_inner i k))"
proof -
  assume inv: "scheduled_is_current k"
  show ?thesis
  proof (cases "map_of (operation_map k) i")
    case None
    with inv show ?thesis by (simp add: start_operation_inner_def)
  next
    case (Some op)
    show ?thesis
    proof (cases "status op = None_status")
      case False
      with Some inv show ?thesis by (simp add: start_operation_inner_def)
    next
      case True
      let ?op' = "op\<lparr> status := Enabled \<rparr>"
      let ?k2 = "k\<lparr> pending_start_operation_count := size_t_dec (pending_start_operation_count k),
                    operation_map := AList.update i ?op' (operation_map k) \<rparr>"
      have "is_scheduled ?op' \<and> status ?op' \<noteq> Completed \<longrightarrow> i = scheduled_op_id k"
        using sic_D [OF inv Some] True by simp
      with inv have "scheduled_is_current (k\<lparr> operation_map := AList.update i ?op' (operation_map k) \<rparr>)"
        by (rule sic_update)
      then have k2: "scheduled_is_current ?k2"
        by (simp add: scheduled_is_current_def)
      then have "\<And>os. scheduled_is_current (?k2\<lparr> operations := os \<rparr>)"
        by (simp add: scheduled_is_current_def)
      with k2 Some True show ?thesis
        by (simp add: start_operation_inner_def Let_def split: sum.splits)
    qed
  qed
qed

lemma schedule_next_inner_sic:
  "scheduled_is_current k \<Longrightarrow> scheduled_is_current (snd (schedule_next_inner strat k))"
proof -
  assume inv: "scheduled_is_current k"
  show ?thesis
  proof (cases "pending_start_operation_count k > 0 \<or> ops_size (operations k) True = 0")
    case True
    with inv show ?thesis by (auto simp: schedule_next_inner_def)
  next
    case False
    obtain res st' where so:
      "strategy_next_operation strat (enabled_ids (operations k)) (scheduled_op_id k) (strategy k) = (res, st')"
      by (cases "strategy_next_operation strat (enabled_ids (operations k)) (scheduled_op_id k) (strategy k)")
    let ?k1 = "k\<lparr> strategy := st' \<rparr>"
    have k1: "scheduled_is_current ?k1" using inv by (simp add: scheduled_is_current_def)
    show ?thesis
    proof (cases res)
      case (Inl e)
      with False so k1 show ?thesis by (simp add: schedule_next_inner_def)
    next
      case (Inr next_id)
      show ?thesis
      proof (cases "map_of (operation_map k) next_id")
        case None
        with False so Inr k1 show ?thesis by (simp add: schedule_next_inner_def)
      next
        case (Some next_op)
        show ?thesis
        proof (cases "scheduled_op_id k = next_id")
          case True
          with False so Inr Some k1 show ?thesis
            by (simp add: schedule_next_inner_def Let_def scheduled_is_current_def)
        next
          case diff: False
          let ?k3 = "k\<lparr> strategy := st', scheduled_op_id := next_id,
                        operation_map := AList.update next_id (next_op\<lparr> is_scheduled := True \<rparr>)
                          (operation_map k) \<rparr>"
          show ?thesis
          proof (cases "map_of (operation_map k) (scheduled_op_id k)")
            case None
            have "scheduled_is_current ?k3"
              using inv None
              by (auto simp: scheduled_is_current_def update_conv' split: if_splits)
            with False so Inr Some diff None show ?thesis
              by (simp add: schedule_next_inner_def Let_def update_conv')
          next
            case (Some previous_op)
            note prev = this
            show ?thesis
            proof (cases "status previous_op = Completed")
              case True
              have "scheduled_is_current ?k3"
                using inv prev True
                by (auto simp: scheduled_is_current_def update_conv' split: if_splits)
              with False so Inr \<open>map_of (operation_map k) next_id = Some next_op\<close> diff prev True
              show ?thesis
                by (simp add: schedule_next_inner_def Let_def update_conv')
            next
              case notc: False
              let ?k4 = "?k3\<lparr> operation_map := AList.update (scheduled_op_id k)
                            (previous_op\<lparr> is_scheduled := False \<rparr>) (operation_map ?k3) \<rparr>"
              have "scheduled_is_current ?k4"
                using inv prev
                by (auto simp: scheduled_is_current_def update_conv' split: if_splits)
              with False so Inr \<open>map_of (operation_map k) next_id = Some next_op\<close> diff prev notc
              show ?thesis
                by (simp add: schedule_next_inner_def Let_def update_conv')
            qed
          qed
        qed
      qed
    qed
  qed
qed


lemma notify_joiners_sic:
  "scheduled_is_current k \<Longrightarrow> scheduled_is_current (snd (notify_joiners j bs k))"
proof (induction bs arbitrary: k)
  case Nil
  then show ?case by simp
next
  case (Cons b rest)
  show ?case
  proof (cases "map_of (operation_map k) b")
    case None
    with Cons.prems show ?thesis by simp
  next
    case (Some blocked_op)
    obtain sat op' where oj: "on_join_operation j blocked_op = (sat, op')"
      by (cases "on_join_operation j blocked_op")
    have keep: "is_scheduled op' = is_scheduled blocked_op"
      "(status op' = Completed) = (status blocked_op = Completed)"
      using on_join_operation_keeps(1,3) [of j blocked_op] oj by simp_all
    have "is_scheduled op' \<and> status op' \<noteq> Completed \<longrightarrow> b = scheduled_op_id k"
      using sic_D [OF Cons.prems Some] keep by simp
    with Cons.prems
    have "scheduled_is_current (k\<lparr> operation_map := AList.update b op' (operation_map k) \<rparr>)"
      by (rule sic_update)
    then have "\<And>os. scheduled_is_current
        (k\<lparr> operation_map := AList.update b op' (operation_map k), operations := os \<rparr>)"
      by (simp add: scheduled_is_current_def)
    from Cons.IH [OF this] Some oj show ?thesis by simp
  qed
qed

lemma signal_blocked_sic:
  "scheduled_is_current k \<Longrightarrow> scheduled_is_current (snd (signal_blocked r bs k))"
proof (induction bs arbitrary: k)
  case Nil
  then show ?case by simp
next
  case (Cons b rest)
  show ?case
  proof (cases "map_of (operation_map k) b")
    case None
    with Cons.prems show ?thesis by simp
  next
    case (Some blocked_op)
    obtain sat op' where oj: "on_resource_signal r blocked_op = (sat, op')"
      by (cases "on_resource_signal r blocked_op")
    have keep: "is_scheduled op' = is_scheduled blocked_op"
      "(status op' = Completed) = (status blocked_op = Completed)"
      using on_resource_signal_keeps(1,3) [of r blocked_op] oj by simp_all
    have "is_scheduled op' \<and> status op' \<noteq> Completed \<longrightarrow> b = scheduled_op_id k"
      using sic_D [OF Cons.prems Some] keep by simp
    with Cons.prems
    have "scheduled_is_current (k\<lparr> operation_map := AList.update b op' (operation_map k) \<rparr>)"
      by (rule sic_update)
    then have "\<And>os. scheduled_is_current
        (k\<lparr> operation_map := AList.update b op' (operation_map k), operations := os \<rparr>)"
      by (simp add: scheduled_is_current_def)
    from Cons.IH [OF this] Some oj show ?thesis by simp
  qed
qed

lemma add_joiner_sic:
  assumes "scheduled_is_current k" and "map_of (operation_map k) i = Some join_op"
  shows "scheduled_is_current (add_joiner i join_op k)"
proof -
  let ?op' = "join_op\<lparr> blocked_operation_ids :=
                List.insert (scheduled_op_id k) (blocked_operation_ids join_op) \<rparr>"
  have "is_scheduled ?op' \<and> status ?op' \<noteq> Completed \<longrightarrow> i = scheduled_op_id k"
    using sic_D [OF assms] by simp
  with assms(1) show ?thesis unfolding add_joiner_def by (rule sic_update)
qed

lemma collect_join_operations_sic:
  "scheduled_is_current k \<Longrightarrow>
   scheduled_is_current (snd (snd (collect_join_operations ids joined k)))"
proof (induction ids arbitrary: joined k)
  case Nil
  then show ?case by simp
next
  case (Cons i rest)
  show ?case
  proof (cases "map_of (operation_map k) i")
    case None
    with Cons.prems show ?thesis by simp
  next
    case (Some join_op)
    from add_joiner_sic [OF Cons.prems Some]
    have "scheduled_is_current (add_joiner i join_op k)" .
    from Cons.IH [OF this] Cons.IH [OF Cons.prems] Some show ?thesis by simp
  qed
qed

lemma block_on_resources_sic:
  "scheduled_is_current k \<Longrightarrow> scheduled_is_current (snd (block_on_resources rs k))"
proof (induction rs arbitrary: k)
  case Nil
  then show ?case by simp
next
  case (Cons r rest)
  show ?case
  proof (cases "map_of (resource_map k) r")
    case None
    with Cons.prems show ?thesis by simp
  next
    case (Some blocked_ids)
    have "scheduled_is_current (k\<lparr> resource_map := AList.update r
             (List.insert (scheduled_op_id k) blocked_ids) (resource_map k) \<rparr>)"
      using Cons.prems by (simp add: scheduled_is_current_def)
    from Cons.IH [OF this] Some show ?thesis by simp
  qed
qed

lemma block_scheduled_operation_sic:
  "scheduled_is_current k \<Longrightarrow>
   scheduled_is_current (snd (block_scheduled_operation strat blocking k))"
proof -
  assume inv: "scheduled_is_current k"
  show ?thesis
  proof (cases "map_of (operation_map k) (scheduled_op_id k)")
    case None
    with inv show ?thesis by (simp add: block_scheduled_operation_def)
  next
    case (Some scheduled_op)
    from inv have "scheduled_is_current
        (k\<lparr> operation_map := AList.update (scheduled_op_id k) (blocking scheduled_op) (operation_map k) \<rparr>)"
      by (rule sic_update) simp
    then have "scheduled_is_current
        (k\<lparr> operation_map := AList.update (scheduled_op_id k) (blocking scheduled_op) (operation_map k),
            operations := ops_disable (op_id (blocking scheduled_op)) (operations k) \<rparr>)"
      by (simp add: scheduled_is_current_def)
    from schedule_next_inner_sic [OF this, of strat] Some show ?thesis
      by (simp add: block_scheduled_operation_def Let_def)
  qed
qed


lemma attach_sic:
  "scheduled_is_current k \<Longrightarrow> scheduled_is_current (snd (attach strat k))"
proof -
  assume inv: "scheduled_is_current k"
  let ?k1 = "k\<lparr> is_attached := True, iteration_count := size_t_inc (iteration_count k),
                last_error_code := Success \<rparr>"
  let ?k2 = "if iteration_count ?k1 > 1
             then ?k1\<lparr> strategy := strategy_prepare_next_iteration strat
                                     (iteration_count ?k1) (strategy ?k1) \<rparr>
             else ?k1"
  have k2: "scheduled_is_current ?k2" using inv by (simp add: scheduled_is_current_def)
  obtain r k3 where c: "create_operation_inner main_op_id ?k2 = (r, k3)"
    by (cases "create_operation_inner main_op_id ?k2")
  from create_operation_inner_sic [OF k2, of main_op_id] c have k3: "scheduled_is_current k3" by simp
  have "scheduled_is_current (snd (case create_operation_inner main_op_id ?k2 of
              (Normal, k3) \<Rightarrow> start_operation_inner main_op_id k3
            | r \<Rightarrow> r))"
    using c k3 start_operation_inner_sic [OF k3, of main_op_id] by (cases r) simp_all
  then show ?thesis
    using inv unfolding attach_def Let_def by (auto intro: finish_sic)
qed

lemma detach_sic:
  "scheduled_is_current k \<Longrightarrow> scheduled_is_current (snd (detach k))"
proof -
  assume inv: "scheduled_is_current k"
  have e: "\<And>k'. operation_map k' = [] \<Longrightarrow> scheduled_is_current k'"
    by (simp add: scheduled_is_current_def)
  have a: "scheduled_is_current (k\<lparr> is_attached := False \<rparr>)"
    using inv by (simp add: scheduled_is_current_def)
  show ?thesis
    unfolding detach_def Let_def
    by (rule finish_sic) (use inv a in \<open>auto simp: e split: option.splits\<close>)
qed

lemma create_operation_sic:
  "scheduled_is_current k \<Longrightarrow> scheduled_is_current (snd (create_operation i k))"
  unfolding create_operation_def by (rule finish_sic) (simp add: create_operation_inner_sic)

lemma start_operation_sic:
  "scheduled_is_current k \<Longrightarrow> scheduled_is_current (snd (start_operation i k))"
  unfolding start_operation_def by (rule finish_sic) (simp add: start_operation_inner_sic)

lemma schedule_next_sic:
  "scheduled_is_current k \<Longrightarrow> scheduled_is_current (snd (schedule_next strat k))"
  unfolding schedule_next_def by (rule finish_sic) (simp add: schedule_next_inner_sic)

lemma resume_pending_sic:
  "scheduled_is_current k \<Longrightarrow> scheduled_is_current (snd (resume_pending strat k))"
  unfolding resume_pending_def by (rule finish_sic) (simp add: schedule_next_inner_sic)

lemma resume_parked_sic:
  "scheduled_is_current k \<Longrightarrow> scheduled_is_current (snd (resume_parked i k))"
  by (auto simp: resume_parked_def intro: finish_sic split: option.splits)

lemma join_operation_sic:
  "scheduled_is_current k \<Longrightarrow> scheduled_is_current (snd (join_operation strat i k))"
  unfolding join_operation_def
  by (rule finish_sic)
    (auto split: option.splits intro: block_scheduled_operation_sic add_joiner_sic)

lemma join_operations_sic:
  "scheduled_is_current k \<Longrightarrow> scheduled_is_current (snd (join_operations strat ids wait_all k))"
proof -
  assume inv: "scheduled_is_current k"
  obtain r joined k1 where c: "collect_join_operations ids [] k = (r, joined, k1)"
    by (cases "collect_join_operations ids [] k")
  from collect_join_operations_sic [OF inv, of ids "[]"] c have k1: "scheduled_is_current k1" by simp
  have "scheduled_is_current (snd (case collect_join_operations ids [] k of
           (Normal, joined, k1) \<Rightarrow>
             if joined \<noteq> []
             then block_scheduled_operation strat (Operation_join_operations joined wait_all) k1
             else (Normal, k1)
         | (r, _, k1) \<Rightarrow> (r, k1)))"
    using c k1 block_scheduled_operation_sic [OF k1] by (cases r) simp_all
  then show ?thesis
    using inv unfolding join_operations_def by (auto intro: finish_sic)
qed

lemma complete_operation_sic:
  "scheduled_is_current k \<Longrightarrow> scheduled_is_current (snd (complete_operation strat i k))"
proof -
  assume inv: "scheduled_is_current k"
  have body: "scheduled_is_current (snd
        (case map_of (operation_map k) i of
           None \<Rightarrow> (Throw NotExistingOperation, k)
         | Some op \<Rightarrow>
             if status op = Completed then (Throw OperationAlreadyCompleted, k)
             else if status op = None_status then (Throw OperationNotStarted, k)
             else
               (let op' = op\<lparr> status := Completed \<rparr>;
                    k1 = k\<lparr> operation_map := AList.update i op' (operation_map k),
                            operations := ops_remove (op_id op') (operations k) \<rparr>
                in case notify_joiners i (blocked_operation_ids op') k1 of
                     (Normal, k2) \<Rightarrow> schedule_next_inner strat k2
                   | r \<Rightarrow> r)))"
  proof (cases "map_of (operation_map k) i")
    case None
    with inv show ?thesis by simp
  next
    case (Some op)
    let ?op' = "op\<lparr> status := Completed \<rparr>"
    let ?k1 = "k\<lparr> operation_map := AList.update i ?op' (operation_map k),
                  operations := ops_remove (op_id ?op') (operations k) \<rparr>"
    from inv have "scheduled_is_current (k\<lparr> operation_map := AList.update i ?op' (operation_map k) \<rparr>)"
      by (rule sic_update) simp
    then have k1: "scheduled_is_current ?k1" by (simp add: scheduled_is_current_def)
    obtain r k2 where n: "notify_joiners i (blocked_operation_ids ?op') ?k1 = (r, k2)"
      by (cases "notify_joiners i (blocked_operation_ids ?op') ?k1")
    from notify_joiners_sic [OF k1, of i "blocked_operation_ids ?op'"] n
    have k2: "scheduled_is_current k2" by simp
    have "scheduled_is_current (snd (case notify_joiners i (blocked_operation_ids ?op') ?k1 of
                     (Normal, k2) \<Rightarrow> schedule_next_inner strat k2
                   | r \<Rightarrow> r))"
      using n k2 schedule_next_inner_sic [OF k2, of strat] by (cases r) simp_all
    with Some inv show ?thesis by (simp add: Let_def)
  qed
  show ?thesis
    unfolding complete_operation_def
    by (rule finish_sic) (use inv body in auto)
qed

lemma create_resource_sic:
  "scheduled_is_current k \<Longrightarrow> scheduled_is_current (snd (create_resource r k))"
  unfolding create_resource_def
  by (rule finish_sic) (auto simp: scheduled_is_current_def split: option.splits)

lemma delete_resource_sic:
  "scheduled_is_current k \<Longrightarrow> scheduled_is_current (snd (delete_resource r k))"
  unfolding delete_resource_def
  by (rule finish_sic) (auto simp: scheduled_is_current_def split: option.splits)

lemma wait_resource_sic:
  "scheduled_is_current k \<Longrightarrow> scheduled_is_current (snd (wait_resource strat r k))"
proof -
  assume inv: "scheduled_is_current k"
  have body: "scheduled_is_current (snd
        (case map_of (operation_map k) (scheduled_op_id k) of
           None \<Rightarrow> (Throw_other, k)
         | Some scheduled_op \<Rightarrow>
             (let scheduled_op' = wait_resource_signal r scheduled_op;
                  k1 = k\<lparr> operation_map := AList.update (scheduled_op_id k) scheduled_op' (operation_map k),
                          operations := ops_disable (op_id scheduled_op') (operations k) \<rparr>
              in case map_of (resource_map k1) r of
                   None \<Rightarrow> (Throw NotExistingResource, k1)
                 | Some blocked_ids \<Rightarrow>
                     schedule_next_inner strat
                       (k1\<lparr> resource_map := AList.update r
                              (List.insert (scheduled_op_id k1) blocked_ids) (resource_map k1) \<rparr>))))"
  proof (cases "map_of (operation_map k) (scheduled_op_id k)")
    case None
    with inv show ?thesis by simp
  next
    case (Some scheduled_op)
    let ?op' = "wait_resource_signal r scheduled_op"
    let ?k1 = "k\<lparr> operation_map := AList.update (scheduled_op_id k) ?op' (operation_map k),
                  operations := ops_disable (op_id ?op') (operations k) \<rparr>"
    from inv have "scheduled_is_current
        (k\<lparr> operation_map := AList.update (scheduled_op_id k) ?op' (operation_map k) \<rparr>)"
      by (rule sic_update) simp
    then have k1: "scheduled_is_current ?k1" by (simp add: scheduled_is_current_def)
    show ?thesis
    proof (cases "map_of (resource_map k) r")
      case None
      with Some k1 show ?thesis by (simp add: Let_def)
    next
      case (Some blocked_ids)
      from k1 have "scheduled_is_current (?k1\<lparr> resource_map := AList.update r
                              (List.insert (scheduled_op_id ?k1) blocked_ids) (resource_map ?k1) \<rparr>)"
        by (simp add: scheduled_is_current_def)
      from schedule_next_inner_sic [OF this, of strat] Some
        \<open>map_of (operation_map k) (scheduled_op_id k) = Some scheduled_op\<close>
      show ?thesis by (simp add: Let_def)
    qed
  qed
  show ?thesis
    unfolding wait_resource_def
    by (rule finish_sic) (use inv body in auto)
qed

lemma wait_resources_sic:
  "scheduled_is_current k \<Longrightarrow> scheduled_is_current (snd (wait_resources strat rs wait_all k))"
proof -
  assume inv: "scheduled_is_current k"
  have body: "scheduled_is_current (snd
        (case map_of (operation_map k) (scheduled_op_id k) of
           None \<Rightarrow> (Throw_other, k)
         | Some scheduled_op \<Rightarrow>
             (let scheduled_op' = wait_resource_signals rs wait_all scheduled_op;
                  k1 = k\<lparr> operation_map := AList.update (scheduled_op_id k) scheduled_op' (operation_map k),
                          operations := ops_disable (op_id scheduled_op') (operations k) \<rparr>
              in case block_on_resources rs k1 of
                   (Normal, k2) \<Rightarrow> schedule_next_inner strat k2
                 | r \<Rightarrow> r)))"
  proof (cases "map_of (operation_map k) (scheduled_op_id k)")
    case None
    with inv show ?thesis by simp
  next
    case (Some scheduled_op)
    let ?op' = "wait_resource_signals rs wait_all scheduled_op"
    let ?k1 = "k\<lparr> operation_map := AList.update (scheduled_op_id k) ?op' (operation_map k),
                  operations := ops_disable (op_id ?op') (operations k) \<rparr>"
    from inv have "scheduled_is_current
        (k\<lparr> operation_map := AList.update (scheduled_op_id k) ?op' (operation_map k) \<rparr>)"
      by (rule sic_update) simp
    then have k1: "scheduled_is_current ?k1" by (simp add: scheduled_is_current_def)
    obtain r k2 where b: "block_on_resources rs ?k1 = (r, k2)"
      by (cases "block_on_resources rs ?k1")
    from block_on_resources_sic [OF k1, of rs] b have k2: "scheduled_is_current k2" by simp
    have "scheduled_is_current (snd (case block_on_resources rs ?k1 of
                   (Normal, k2) \<Rightarrow> schedule_next_inner strat k2
                 | r \<Rightarrow> r))"
      using b k2 schedule_next_inner_sic [OF k2, of strat] by (cases r) simp_all
    with Some show ?thesis by (simp add: Let_def)
  qed
  show ?thesis
    unfolding wait_resources_def
    by (rule finish_sic) (use inv body in auto)
qed

lemma signal_resource_sic:
  "scheduled_is_current k \<Longrightarrow> scheduled_is_current (snd (signal_resource r k))"
proof -
  assume inv: "scheduled_is_current k"
  have body: "\<And>bs. scheduled_is_current (snd
             (case signal_blocked r bs k of
                (Normal, k1) \<Rightarrow>
                  (Normal, k1\<lparr> resource_map := AList.update r [] (resource_map k1) \<rparr>)
              | r \<Rightarrow> r))"
  proof -
    fix bs
    obtain res k1 where b: "signal_blocked r bs k = (res, k1)"
      by (cases "signal_blocked r bs k")
    from signal_blocked_sic [OF inv, of r bs] b have k1: "scheduled_is_current k1" by simp
    then have "scheduled_is_current (k1\<lparr> resource_map := AList.update r [] (resource_map k1) \<rparr>)"
      by (simp add: scheduled_is_current_def)
    with b k1 show "scheduled_is_current (snd
             (case signal_blocked r bs k of
                (Normal, k1) \<Rightarrow>
                  (Normal, k1\<lparr> resource_map := AList.update r [] (resource_map k1) \<rparr>)
              | r \<Rightarrow> r))"
      by (cases res) simp_all
  qed
  show ?thesis
    unfolding signal_resource_def
    by (rule finish_sic) (use inv body in \<open>auto split: option.splits\<close>)
qed

lemma signal_resource_operation_sic:
  "scheduled_is_current k \<Longrightarrow> scheduled_is_current (snd (signal_resource_operation r i k))"
proof -
  assume inv: "scheduled_is_current k"
  have body: "\<And>bs. scheduled_is_current (snd
               (case signal_blocked r [i] k of
                  (Normal, k1) \<Rightarrow>
                    (Normal, k1\<lparr> resource_map := AList.update r (removeAll i bs) (resource_map k1) \<rparr>)
                | r \<Rightarrow> r))"
  proof -
    fix bs
    obtain res k1 where b: "signal_blocked r [i] k = (res, k1)"
      by (cases "signal_blocked r [i] k")
    from signal_blocked_sic [OF inv, of r "[i]"] b have k1: "scheduled_is_current k1" by simp
    then have "scheduled_is_current (k1\<lparr> resource_map := AList.update r (removeAll i bs) (resource_map k1) \<rparr>)"
      by (simp add: scheduled_is_current_def)
    with b k1 show "scheduled_is_current (snd
               (case signal_blocked r [i] k of
                  (Normal, k1) \<Rightarrow>
                    (Normal, k1\<lparr> resource_map := AList.update r (removeAll i bs) (resource_map k1) \<rparr>)
                | r \<Rightarrow> r))"
      by (cases res) simp_all
  qed
  show ?thesis
    unfolding signal_resource_operation_def
    by (rule finish_sic) (use inv body in \<open>auto split: option.splits\<close>)
qed

lemma call_sic:
  "scheduled_is_current k \<Longrightarrow> scheduled_is_current (snd (call strat e k))"
  by (cases e)
    (simp_all add: attach_sic detach_sic create_operation_sic start_operation_sic
      complete_operation_sic join_operation_sic join_operations_sic create_resource_sic
      delete_resource_sic wait_resource_sic wait_resources_sic signal_resource_sic
      signal_resource_operation_sic schedule_next_sic resume_parked_sic resume_pending_sic)

lemma reachable_sic: "reachable strat k \<Longrightarrow> scheduled_is_current k"
proof (induction rule: reachable.induct)
  case (new_client stype st)
  show ?case by (simp add: scheduled_is_current_def SchedulerClient_def)
next
  case (step k e)
  from step.IH show ?case by (rule call_sic)
qed

section \<open>Properties of the PCT strategy\<close>

subsection \<open>The range of next_integer\<close>

text \<open>
  Claim C9, as amended: for every call \<open>next_integer(max)\<close> with \<open>max > 0\<close>, a value is
  returned and it lies in \<open>[0, max)\<close>.
\<close>

theorem next_integer_in_range:
  assumes "0 <s max_value"
  shows "\<exists>v. fst (next_integer gnext max_value s) = Some v \<and> 0 \<le> sint v \<and> sint v < sint max_value"
proof -
  obtain r g' where d: "gnext (generator s) = (r, g')" by (cases "gnext (generator s)")
  let ?m = "scast max_value :: 64 word"
  let ?x = "r mod ?m"
  have pos: "0 < sint max_value" using assms by (simp add: word_sless_alt)
  have lt: "sint max_value < 2 ^ 31" using sint_lt [of max_value] by simp
  have um: "uint ?m = sint max_value"
  proof -
    have "uint ?m = sint max_value mod 2 ^ LENGTH(64)"
      by (simp only: scast_eq uint_word_of_int)
    moreover have "sint max_value < 2 ^ LENGTH(64)" using lt by simp
    ultimately show ?thesis using pos by simp
  qed
  have m0: "?m \<noteq> 0"
    using um pos by (metis less_irrefl uint_0_eq)
  have ux: "uint ?x < sint max_value" "0 \<le> uint ?x"
    using um pos by (simp_all add: uint_mod)
  have sx: "sint (ucast ?x :: 32 word) = uint ?x"
  proof -
    have "sint (ucast ?x :: 32 word) = signed_take_bit 31 (uint ?x)"
      by (simp add: signed_ucast_eq)
    also have "\<dots> = uint ?x"
    proof (rule signed_take_bit_int_eq_self)
      have "- (2 ^ 31) \<le> (0 :: int)" by simp
      also have "0 \<le> uint ?x" by simp
      finally show "- (2 ^ 31) \<le> uint ?x" .
      show "uint ?x < 2 ^ 31" using ux(1) lt by (rule less_trans)
    qed
    finally show ?thesis .
  qed
  have "fst (next_integer gnext max_value s) = Some (ucast ?x)"
    using d m0 by (simp add: next_integer_def Let_def)
  then show ?thesis using sx ux by auto
qed

theorem next_integer_in_range_witness:
  "0 <s (10 :: 32 word) \<and>
   (\<exists>v. fst (next_integer replay_next 10 (PCTStrategy [25] 0 0)) = Some v \<and>
        0 \<le> sint v \<and> sint v < sint (10 :: 32 word))"
  using next_integer_in_range [of 10 replay_next "PCTStrategy [25] 0 0"]
  by (simp add: word_sless_alt)

text \<open>
  The claim as stated, for every \<open>max\<close>, fails for a bound that is not positive: with
  \<open>max = -1\<close> and the draw 5 the call returns 5, which is not below \<open>-1\<close>.
\<close>

theorem next_integer_negative_bound_counterexample:
  "fst (next_integer replay_next (- 1) (PCTStrategy [5] 0 0)) = Some 5 \<and>
   \<not> (sint (5 :: 32 word) < sint (- 1 :: 32 word))"
  by (simp add: next_integer_def PCTStrategy_def)

subsection \<open>Priorities of new operations\<close>

text \<open>
  Claim C6: in every state of the strategy that its member functions can produce,
  \<open>set_new_operation_priorities\<close> first seeds an empty priority list with \<open>current\<close> (the
  state \<open>s0\<close>), and then runs \<open>assign_priority\<close> over the enabled ids in order. For an id
  that is not yet known, \<open>assign_priority\<close> inserts it at the index
  \<open>k = generator.next() mod |priority list| + 1\<close>, so \<open>1 \<le> k \<le> |priority list|\<close> and never 0,
  and marks it known; a known id changes nothing. After the step the priority list holds
  the ids it held before and every enabled id, each new one once (the length grows by the
  number of new enabled ids), the ids it held before are in the same order, every new enabled
  id is behind the front, and the id at the front is the one that was there before.
\<close>

theorem new_priorities_inserted_behind_front:
  assumes "pct_reachable gnext s"
    and "s0 = (if length (prioritized_operations s) = 0
               then s\<lparr> prioritized_operations := prioritized_operations s @ [current],
                       known_operations := insert current (known_operations s) \<rparr>
               else s)"
    and "s' = set_new_operation_priorities gnext ops current s"
  shows "s' = fold (assign_priority gnext) ops s0 \<and>
         (\<forall>next_op s1. prioritized_operations s1 \<noteq> [] \<longrightarrow>
            (next_op \<in> known_operations s1 \<longrightarrow> assign_priority gnext next_op s1 = s1) \<and>
            (next_op \<notin> known_operations s1 \<longrightarrow>
               (\<exists>k. k = unat (fst (gnext (generator s1))) mod length (prioritized_operations s1) + 1 \<and>
                    1 \<le> k \<and> k \<le> length (prioritized_operations s1) \<and>
                    prioritized_operations (assign_priority gnext next_op s1) =
                      take k (prioritized_operations s1) @ [next_op] @
                      drop k (prioritized_operations s1)) \<and>
               known_operations (assign_priority gnext next_op s1) =
                 insert next_op (known_operations s1))) \<and>
         prioritized_operations s0 \<noteq> [] \<and>
         set (prioritized_operations s') = set (prioritized_operations s0) \<union> set ops \<and>
         known_operations s' = set (prioritized_operations s') \<and>
         length (prioritized_operations s') =
           length (prioritized_operations s0) + card (set ops - known_operations s0) \<and>
         filter (\<lambda>p. p \<in> known_operations s0) (prioritized_operations s') =
           prioritized_operations s0 \<and>
         hd (prioritized_operations s') = hd (prioritized_operations s0) \<and>
         (\<forall>next_op \<in> set ops. next_op \<notin> known_operations s0 \<longrightarrow>
            next_op \<in> set (tl (prioritized_operations s')))"
proof -
  have inv: "known_operations s = set (prioritized_operations s)"
    using assms(1) by (rule pct_reachable_known)
  have inv0: "known_operations s0 = set (prioritized_operations s0)"
    using inv assms(2) by simp
  have ne0: "prioritized_operations s0 \<noteq> []"
    using assms(2) by simp
  have s': "s' = assign_priorities gnext ops s0"
    using assms(2,3) by (simp add: set_new_operation_priorities_def)
  have c1: "s' = fold (assign_priority gnext) ops s0"
    using s' by (simp add: assign_priorities_fold)
  have c2: "\<forall>next_op s1. prioritized_operations s1 \<noteq> [] \<longrightarrow>
            (next_op \<in> known_operations s1 \<longrightarrow> assign_priority gnext next_op s1 = s1) \<and>
            (next_op \<notin> known_operations s1 \<longrightarrow>
               (\<exists>k. k = unat (fst (gnext (generator s1))) mod length (prioritized_operations s1) + 1 \<and>
                    1 \<le> k \<and> k \<le> length (prioritized_operations s1) \<and>
                    prioritized_operations (assign_priority gnext next_op s1) =
                      take k (prioritized_operations s1) @ [next_op] @
                      drop k (prioritized_operations s1)) \<and>
               known_operations (assign_priority gnext next_op s1) =
                 insert next_op (known_operations s1))"
  proof (intro allI impI conjI)
    fix next_op and s1 :: "'a pct_strategy"
    assume "next_op \<in> known_operations s1"
    then show "assign_priority gnext next_op s1 = s1" by (simp add: assign_priority_def)
  next
    fix next_op and s1 :: "'a pct_strategy"
    assume "prioritized_operations s1 \<noteq> []" and "next_op \<notin> known_operations s1"
    then show "\<exists>k. k = unat (fst (gnext (generator s1))) mod length (prioritized_operations s1) + 1 \<and>
                    1 \<le> k \<and> k \<le> length (prioritized_operations s1) \<and>
                    prioritized_operations (assign_priority gnext next_op s1) =
                      take k (prioritized_operations s1) @ [next_op] @
                      drop k (prioritized_operations s1)"
      by (rule assign_priority_inserts)
  next
    fix next_op and s1 :: "'a pct_strategy"
    show "known_operations (assign_priority gnext next_op s1) =
                 insert next_op (known_operations s1)"
      by (rule assign_priority_length(2))
  qed
  have c3: "set (prioritized_operations s') = set (prioritized_operations s0) \<union> set ops"
    unfolding s' using inv0 by (rule assign_priorities_set)
  have c4: "known_operations s' = set (prioritized_operations s')"
    unfolding s'
    using assign_priorities_known [OF inv0, where gnext=gnext and ops=ops] by blast
  have c5: "length (prioritized_operations s') =
           length (prioritized_operations s0) + card (set ops - known_operations s0)"
    unfolding s' by (rule assign_priorities_length)
  have "filter (\<lambda>p. p \<in> known_operations s0) (prioritized_operations s') =
          filter (\<lambda>p. p \<in> known_operations s0) (prioritized_operations s0)"
    unfolding s' by (rule assign_priorities_filter) simp
  then have c6: "filter (\<lambda>p. p \<in> known_operations s0) (prioritized_operations s') =
           prioritized_operations s0"
    by (simp add: inv0)
  have c7: "hd (prioritized_operations s') = hd (prioritized_operations s0)"
    unfolding s' using assign_priorities_hd [OF ne0, of gnext ops] by blast
  have c8: "\<forall>next_op \<in> set ops. next_op \<notin> known_operations s0 \<longrightarrow>
            next_op \<in> set (tl (prioritized_operations s'))"
  proof (intro ballI impI)
    fix next_op
    assume a: "next_op \<in> set ops" and b: "next_op \<notin> known_operations s0"
    from a c3 have m: "next_op \<in> set (prioritized_operations s')" by simp
    from ne0 inv0 have "hd (prioritized_operations s0) \<in> known_operations s0" by simp
    with b c7 have "next_op \<noteq> hd (prioritized_operations s')" by auto
    with m show "next_op \<in> set (tl (prioritized_operations s'))"
      by (cases "prioritized_operations s'") auto
  qed
  show ?thesis by (intro conjI; fact)
qed

theorem new_priorities_inserted_behind_front_witness:
  "pct_reachable replay_next (snd (next_operation replay_next [3] 3 (PCTStrategy [1, 0] 0 0))) \<and>
   prioritized_operations (snd (next_operation replay_next [3] 3 (PCTStrategy [1, 0] 0 0))) = [3] \<and>
   prioritized_operations (set_new_operation_priorities replay_next [3, 7, 9] 3
     (snd (next_operation replay_next [3] 3 (PCTStrategy [1, 0] 0 0)))) = [3, 9, 7] \<and>
   7 \<in> set (tl (prioritized_operations (set_new_operation_priorities replay_next [3, 7, 9] 3
     (snd (next_operation replay_next [3] 3 (PCTStrategy [1, 0] 0 0)))))) \<and>
   9 \<in> set (tl (prioritized_operations (set_new_operation_priorities replay_next [3, 7, 9] 3
     (snd (next_operation replay_next [3] 3 (PCTStrategy [1, 0] 0 0)))))) \<and>
   hd (prioritized_operations (set_new_operation_priorities replay_next [3, 7, 9] 3
     (snd (next_operation replay_next [3] 3 (PCTStrategy [1, 0] 0 0))))) = 3"
proof -
  let ?s = "snd (next_operation replay_next [3] 3 (PCTStrategy [1, 0] 0 0))"
  let ?s' = "set_new_operation_priorities replay_next [3, 7, 9] 3 ?s"
  have h1: "pct_reachable replay_next ?s"
    by (intro pct_reachable.intros)
  have h2: "?s = (if length (prioritized_operations ?s) = 0
               then ?s\<lparr> prioritized_operations := prioritized_operations ?s @ [3],
                       known_operations := insert 3 (known_operations ?s) \<rparr>
               else ?s)"
    by (simp add: after_first_step_fields)
  have e: "prioritized_operations ?s' = [3, 9, 7]"
    by (simp add: set_new_operation_priorities_def assign_priority_def after_first_step_fields
        Let_def)
  have n: "7 \<in> set [3, 7, 9::nat] \<and> 7 \<notin> known_operations ?s \<and>
           9 \<in> set [3, 7, 9::nat] \<and> 9 \<notin> known_operations ?s"
    by (simp add: after_first_step_fields)
  from new_priorities_inserted_behind_front [OF h1 h2 refl] n
  have t: "7 \<in> set (tl (prioritized_operations ?s')) \<and>
           9 \<in> set (tl (prioritized_operations ?s')) \<and>
           hd (prioritized_operations ?s') = hd (prioritized_operations ?s)"
    by blast
  from h1 e t show ?thesis by (simp add: after_first_step_fields)
qed

subsection \<open>The operation returned by next_operation\<close>

text \<open>
  Claim C2: in every state of the strategy that its member functions can produce, and for
  every non-empty list of enabled ids, \<open>next_operation\<close> returns an id (the throw of
  \<open>InternalError\<close> is not reached), the id is enabled, and it is the first element of the
  priority list, as the call leaves it, that is enabled.
\<close>

theorem next_operation_highest_enabled:
  assumes "pct_reachable gnext s" and "ops \<noteq> []"
  shows "\<exists>n. fst (next_operation gnext ops current s) = Inr n \<and> n \<in> set ops \<and>
             List.find (\<lambda>p. p \<in> set ops)
               (prioritized_operations (snd (next_operation gnext ops current s))) = Some n"
proof -
  let ?s1 = "set_new_operation_priorities gnext ops current s"
  have inv: "known_operations s = set (prioritized_operations s)"
    using assms(1) by (rule pct_reachable_known)
  have inv1: "known_operations ?s1 = set (prioritized_operations ?s1)"
    and sub1: "set ops \<subseteq> known_operations ?s1"
    using set_new_operation_priorities_known [OF inv, where gnext=gnext and ops=ops and current=current] by blast+
  from sub1 inv1 have sub1': "set ops \<subseteq> set (prioritized_operations ?s1)" by simp
  from try_deprioritize_total [OF sub1'] obtain b s2
    where td: "try_deprioritize_operation_with_highest_priority ops ?s1 = Inr (b, s2)" by blast
  have set2: "set (prioritized_operations s2) = set (prioritized_operations ?s1)"
    using try_deprioritize_known(2) [OF inv1 td] .
  let ?s3 = "s2\<lparr> scheduled_steps := size_t_inc (scheduled_steps s2) \<rparr>"
  have res: "next_operation gnext ops current s = (get_operation_with_highest_priority ops ?s3, ?s3)"
    using td by (simp add: next_operation_def Let_def)
  have "set ops \<subseteq> set (prioritized_operations ?s3)" using sub1' set2 by simp
  from scan_prioritized_total [OF this assms(2)] obtain n
    where n: "scan_prioritized (prioritized_operations ?s3) ops = Inr n" by blast
  then have f: "List.find (\<lambda>p. p \<in> set ops) (prioritized_operations ?s3) = Some n"
    by (auto simp: scan_prioritized_find split: option.splits)
  from scan_prioritized_Inr [OF n] have "n \<in> set ops" by simp
  with n f res show ?thesis
    by (simp add: get_operation_with_highest_priority_def)
qed

theorem next_operation_highest_enabled_witness:
  "pct_reachable replay_next (PCTStrategy [] 0 0) \<and> [4, 2] \<noteq> ([] :: nat list) \<and>
   (\<exists>n. fst (next_operation replay_next [4, 2] 2 (PCTStrategy [] 0 0)) = Inr n \<and> n \<in> set [4, 2] \<and>
        List.find (\<lambda>p. p \<in> set [4, 2])
          (prioritized_operations (snd (next_operation replay_next [4, 2] 2 (PCTStrategy [] 0 0)))) = Some n)"
proof -
  have h1: "pct_reachable replay_next (PCTStrategy [] 0 0)"
    by (rule pct_reachable.constructed)
  have h2: "[4, 2] \<noteq> ([] :: nat list)" by simp
  from next_operation_highest_enabled [OF h1 h2, of 2] h1 h2 show ?thesis by blast
qed

subsection \<open>The bound on the priority change points\<close>

text \<open>
  Claim C7: in every state of the strategy that its member functions can produce, there are at
  most \<open>max_priority_switches\<close> change points, and each of them lies in
  \<open>[1, schedule_length)\<close>.
\<close>

theorem change_points_bounded:
  assumes "pct_reachable gnext s"
  shows "card (priority_change_points s) \<le> max_priority_switches s \<and>
         (\<forall>p \<in> priority_change_points s. 1 \<le> p \<and> p < schedule_length s)"
  using pct_reachable_change_points_ok [OF assms] by (simp add: change_points_ok_def)

theorem change_points_bounded_witness:
  "pct_reachable replay_next (prepare_next_iteration replay_next 2 four_steps) \<and>
   card (priority_change_points (prepare_next_iteration replay_next 2 four_steps))
     \<le> max_priority_switches (prepare_next_iteration replay_next 2 four_steps) \<and>
   (1 :: nat) \<in> priority_change_points (prepare_next_iteration replay_next 2 four_steps) \<and>
   (1 :: nat) < schedule_length (prepare_next_iteration replay_next 2 four_steps)"
proof -
  have h: "pct_reachable replay_next (prepare_next_iteration replay_next 2 four_steps)"
    using four_steps_reachable by (rule pct_reachable.after_prepare_next_iteration)
  have m: "(1 :: nat) \<in> priority_change_points (prepare_next_iteration replay_next 2 four_steps)"
    by (simp add: four_steps_eq prepare_next_iteration_def shuffle_priority_change_points_def
        upt_1_4 shuffle_loop_numeral shuffle_loop_1 swap3)
  from change_points_bounded [OF h] h m show ?thesis by blast
qed

subsection \<open>The shuffle of the change points\<close>

text \<open>
  Claim C3 says that \<open>prepare_next_iteration\<close> permutes \<open>[1, \<dots>, schedule_length - 1]\<close> with a
  Fisher-Yates shuffle. The loop of \<open>shuffle_priority_change_points\<close> draws the position to
  exchange with from the whole list (\<open>generator.next() % range.size()\<close>) and not from
  \<open>0..idx\<close>. With schedule length 4, bound 1 and the draws 2 and 2, the step for
  \<open>idx = 1\<close> exchanges the positions 1 and 2: the code leaves \<open>[1, 3, 2]\<close> and stores the
  change point 1, where the Fisher-Yates shuffle leaves \<open>[2, 1, 3]\<close>, whose first element is 2.
\<close>

theorem shuffle_differs_from_fisher_yates:
  "fst (shuffle_loop replay_next 2 [1, 2, 3] [2, 2]) = [1, 3, 2] \<and>
   fst (fisher_yates_spec replay_next 2 [1, 2, 3] [2, 2]) = [2, 1, 3] \<and>
   schedule_length (prepare_next_iteration replay_next 2 four_steps) = 4 \<and>
   priority_change_points (prepare_next_iteration replay_next 2 four_steps) = {1}"
proof -
  have "fst (shuffle_loop replay_next 2 [1, 2, 3] [2, 2]) = [1, 3, 2]"
    by (simp add: shuffle_loop_numeral shuffle_loop_1 swap3)
  moreover have "fst (fisher_yates_spec replay_next 2 [1, 2, 3] [2, 2]) = [2, 1, 3]"
  proof -
    have "fisher_yates_spec replay_next 2 [1, 2, 3] [2, 2] =
            fisher_yates_spec replay_next 1 [1, 2, 3] [2]"
      by (simp add: fisher_yates_spec_numeral swap3 del: fisher_yates_spec.simps)
    also have "\<dots> = ([2, 1, 3], [])"
      by (simp add: fisher_yates_spec_1 swap3 del: fisher_yates_spec.simps)
    finally show ?thesis by simp
  qed
  moreover have "schedule_length (prepare_next_iteration replay_next 2 four_steps) = 4"
    by (simp add: four_steps_eq prepare_next_iteration_def shuffle_priority_change_points_def
        split: prod.splits)
  moreover have "priority_change_points (prepare_next_iteration replay_next 2 four_steps) = {1}"
    by (simp add: four_steps_eq prepare_next_iteration_def shuffle_priority_change_points_def
        upt_1_4 shuffle_loop_numeral shuffle_loop_1 swap3)
  ultimately show ?thesis by blast
qed

section \<open>Properties of the scheduler kernel\<close>

subsection \<open>Signalling a resource\<close>

text \<open>
  Claim C8: on an attached client, for a resource that exists and whose blocked operations
  have records, \<open>signal_resource(id)\<close> returns without an error of its own, leaves the
  resource with an empty blocked set, changes neither \<open>scheduled_op_id\<close> nor the
  \<open>is_scheduled\<close> flag of any record (the token is not passed), and every operation blocked
  on the resource for which \<open>on_resource_signal\<close> answers true is enabled afterwards, when
  it is a member of the enabled set.
\<close>

theorem signal_resource_wakes_and_keeps_token:
  assumes "exploration_strategy k \<noteq> None_strategy" and "is_attached k"
    and "map_of (resource_map k) resource_id = Some blocked"
    and "distinct blocked"
    and "\<forall>b \<in> set blocked. \<exists>op. map_of (operation_map k) b = Some op \<and> op_id op = b"
  shows "\<exists>k'. signal_resource resource_id k = (Returns (last_error_code k), k') \<and>
           map_of (resource_map k') resource_id = Some [] \<and>
           scheduled_op_id k' = scheduled_op_id k \<and>
           (\<forall>i. map_option is_scheduled (map_of (operation_map k') i) =
                map_option is_scheduled (map_of (operation_map k) i)) \<and>
           (\<forall>b \<in> set blocked. \<forall>op. map_of (operation_map k) b = Some op \<and>
                fst (on_resource_signal resource_id op) \<and> b \<in> fst ` set (operations k)
                \<longrightarrow> b \<in> set (enabled_ids (operations k')))"
proof -
  from signal_blocked_effect [OF assms(4,5), of resource_id] obtain k1 where
    r: "signal_blocked resource_id blocked k = (Normal, k1)"
    and a1: "resource_map k1 = resource_map k"
    and a2: "scheduled_op_id k1 = scheduled_op_id k"
    and a3: "last_error_code k1 = last_error_code k"
    and a4: "\<forall>i. map_option is_scheduled (map_of (operation_map k1) i) =
                map_option is_scheduled (map_of (operation_map k) i)"
    and a8: "\<forall>b \<in> set blocked. \<forall>op. map_of (operation_map k) b = Some op \<and>
                fst (on_resource_signal resource_id op) \<and> b \<in> fst ` set (operations k)
                \<longrightarrow> (b, True) \<in> set (operations k1)"
    by blast
  let ?k' = "k1\<lparr> resource_map := AList.update resource_id [] (resource_map k1) \<rparr>"
  have "signal_resource resource_id k = (Returns (last_error_code k), ?k')"
    using assms(1,2,3) r a3 by (simp add: signal_resource_def finish_def)
  moreover have "map_of (resource_map ?k') resource_id = Some []"
    by (simp add: update_conv')
  ultimately show ?thesis using a2 a4 a8 by (auto simp: enabled_ids_iff)
qed

text \<open>The main operation waits for resource 5, and operation 1, which got the token,
  signals it.\<close>

theorem signal_resource_wakes_and_keeps_token_witness:
  "map_of (resource_map main_waits_beside_1) 5 = Some [0] \<and>
   enabled_ids (operations main_waits_beside_1) = [1] \<and>
   scheduled_op_id main_waits_beside_1 = 1 \<and>
   map_of (resource_map (snd (signal_resource 5 main_waits_beside_1))) 5 = Some [] \<and>
   scheduled_op_id (snd (signal_resource 5 main_waits_beside_1)) = 1 \<and>
   0 \<in> set (enabled_ids (operations (snd (signal_resource 5 main_waits_beside_1))))"
proof -
  let ?k = main_waits_beside_1
  let ?main = "\<lparr> op_id = 0, status = Blocked, is_scheduled = False, blocked_operation_ids = [],
      join_target = None, waiting_resources = Some ([5], WaitAll) \<rparr>"
  note f = main_waits_beside_1_fields
  have h1: "exploration_strategy ?k \<noteq> None_strategy" and h2: "is_attached ?k"
    by (simp_all add: f)
  have h3: "map_of (resource_map ?k) 5 = Some [0]" by (simp add: f)
  have h4: "distinct [0 :: nat]" by simp
  have h5: "\<forall>b \<in> set [0]. \<exists>op. map_of (operation_map ?k) b = Some op \<and> op_id op = b"
    by (simp add: f)
  from signal_resource_wakes_and_keeps_token [OF h1 h2 h3 h4 h5]
  obtain k' where k': "signal_resource 5 ?k = (Returns (last_error_code ?k), k')"
    and c1: "map_of (resource_map k') 5 = Some []"
    and c2: "scheduled_op_id k' = scheduled_op_id ?k"
    and c3: "\<forall>b \<in> set [0]. \<forall>op. map_of (operation_map ?k) b = Some op \<and>
                fst (on_resource_signal 5 op) \<and> b \<in> fst ` set (operations ?k)
                \<longrightarrow> b \<in> set (enabled_ids (operations k'))"
    by blast
  have "map_of (operation_map ?k) 0 = Some ?main \<and> fst (on_resource_signal 5 ?main) \<and>
        0 \<in> fst ` set (operations ?k)"
    by (simp add: f on_resource_signal_def)
  with c3 have c4: "0 \<in> set (enabled_ids (operations k'))" by simp
  have sk: "snd (signal_resource 5 ?k) = k'" using k' by simp
  have e: "enabled_ids (operations ?k) = [1]" by (simp add: f enabled_ids_def)
  have s: "scheduled_op_id ?k = 1" by (simp add: f)
  show ?thesis
    unfolding sk using h3 e s c1 c2 c4 by simp
qed

subsection \<open>Deadlock detection\<close>

text \<open>
  Claim C4, as amended: when \<open>schedule_next_inner\<close> is reached with no pending start and no
  enabled operation, it throws \<open>DeadlockDetected\<close> if the enabled set still has members
  (disabled ones) and \<open>Success\<close> otherwise, and changes nothing; \<open>schedule_next\<close> on an
  attached client then returns that code and changes nothing but the last error, so the
  client stays attached.
\<close>

theorem schedule_next_without_enabled:
  assumes "pending_start_operation_count k = 0"
    and "ops_size (operations k) True = 0"
  shows "schedule_next_inner strat k =
           (Throw (if ops_size (operations k) False > 0 then DeadlockDetected else Success), k)
         \<and> (exploration_strategy k \<noteq> None_strategy \<and> is_attached k \<longrightarrow>
              schedule_next strat k =
                (if ops_size (operations k) False > 0
                 then (Returns DeadlockDetected, k\<lparr> last_error_code := DeadlockDetected \<rparr>)
                 else (Returns Success, k\<lparr> last_error_code := Success \<rparr>)))"
  using assms by (simp add: schedule_next_inner_def schedule_next_def finish_def)

theorem schedule_next_without_enabled_witness:
  "pending_start_operation_count main_waits_alone = 0 \<and>
   ops_size (operations main_waits_alone) True = 0 \<and>
   schedule_next_inner example_strategy main_waits_alone =
     (Throw DeadlockDetected, main_waits_alone) \<and>
   fst (schedule_next example_strategy main_waits_alone) = Returns DeadlockDetected"
proof -
  have h1: "pending_start_operation_count main_waits_alone = 0"
    by (simp add: main_waits_alone_fields)
  have h2: "ops_size (operations main_waits_alone) True = 0"
    by (simp add: main_waits_alone_fields ops_size_def)
  have h3: "exploration_strategy main_waits_alone \<noteq> None_strategy \<and> is_attached main_waits_alone"
    by (simp add: main_waits_alone_fields)
  have h4: "ops_size (operations main_waits_alone) False > 0"
    by (simp add: main_waits_alone_fields ops_size_def)
  from schedule_next_without_enabled [OF h1 h2, of example_strategy] h3 h4
  have "schedule_next_inner example_strategy main_waits_alone =
          (Throw DeadlockDetected, main_waits_alone) \<and>
        fst (schedule_next example_strategy main_waits_alone) = Returns DeadlockDetected"
    by simp
  with h1 h2 show ?thesis by blast
qed

text \<open>
  The claim as stated ends the iteration when \<open>DeadlockDetected\<close> is raised. The scheduler
  does not: after the main operation has blocked on resource 5 with no other operation,
  \<open>schedule_next\<close> returns \<open>DeadlockDetected\<close> and leaves the client attached with the blocked
  main operation; a second \<open>schedule_next\<close> raises \<open>DeadlockDetected\<close> again, and
  \<open>create_resource(6)\<close> still adds resource 6.
\<close>

theorem deadlock_leaves_client_attached_counterexample:
  "fst (schedule_next example_strategy main_waits_alone) = Returns DeadlockDetected \<and>
   is_attached after_deadlock \<and>
   map fst (operation_map after_deadlock) = [0] \<and>
   map (status \<circ> snd) (operation_map after_deadlock) = [Blocked] \<and>
   fst (schedule_next example_strategy after_deadlock) = Returns DeadlockDetected \<and>
   map fst (resource_map after_deadlock) = [5] \<and>
   map fst (resource_map (snd (create_resource 6 after_deadlock))) = [5, 6]"
  by (simp add: after_deadlock_fields after_deadlock_eq after_deadlock_calls)

subsection \<open>Waiting for a resource that does not exist\<close>

text \<open>
  Claim C10: on an attached client whose scheduled operation has a record,
  \<open>wait_resource\<close> with a resource id that is not in the resource table returns
  \<open>NotExistingResource\<close>, and the state it leaves has the wait stored on the record of the
  scheduled operation and that operation disabled in the enabled set: the check for the
  resource comes after both changes.
\<close>

theorem wait_resource_missing:
  assumes "exploration_strategy k \<noteq> None_strategy" and "is_attached k"
    and "map_of (operation_map k) (scheduled_op_id k) = Some scheduled_op"
    and "map_of (resource_map k) resource_id = None"
  shows "wait_resource strat resource_id k =
           (Returns NotExistingResource,
            k\<lparr> operation_map := AList.update (scheduled_op_id k)
                   (wait_resource_signal resource_id scheduled_op) (operation_map k),
               operations := ops_disable (op_id scheduled_op) (operations k),
               last_error_code := NotExistingResource \<rparr>)"
  using assms by (simp add: wait_resource_def finish_def Let_def wait_resource_signal_def)

theorem wait_resource_missing_witness:
  "fst (wait_resource example_strategy 9 after_attach) = Returns NotExistingResource \<and>
   enabled_ids (operations after_attach) = [0] \<and>
   enabled_ids (operations (snd (wait_resource example_strategy 9 after_attach))) = [] \<and>
   map (waiting_resources \<circ> snd)
     (operation_map (snd (wait_resource example_strategy 9 after_attach))) =
     [Some ([9], WaitAll)]"
proof -
  let ?main = "(Operation 0)\<lparr> status := Enabled, is_scheduled := True \<rparr>"
  have h1: "exploration_strategy after_attach \<noteq> None_strategy"
    and h2: "is_attached after_attach"
    and h3: "map_of (operation_map after_attach) (scheduled_op_id after_attach) = Some ?main"
    and h4: "map_of (resource_map after_attach) 9 = None"
    by (simp_all add: after_attach_fields)
  from wait_resource_missing [OF h1 h2 h3 h4, of example_strategy]
  show ?thesis
    by (simp add: after_attach_fields Operation_def wait_resource_signal_def ops_disable_def
        enabled_ids_def)
qed

subsection \<open>Mutual exclusion of scheduling\<close>

text \<open>
  Claim C1, as amended: in every state of the scheduler that a sequence of entry points
  reaches, at most one operation record that has not completed has \<open>is_scheduled = true\<close>,
  and it is the record of \<open>scheduled_op_id\<close>.
\<close>

theorem at_most_one_live_operation_scheduled:
  assumes "reachable strat k"
    and "map_of (operation_map k) i = Some a" and "is_scheduled a" and "status a \<noteq> Completed"
    and "map_of (operation_map k) j = Some b" and "is_scheduled b" and "status b \<noteq> Completed"
  shows "i = j \<and> i = scheduled_op_id k"
proof -
  from assms(1) have inv: "scheduled_is_current k" by (rule reachable_sic)
  from sic_D [OF inv assms(2,3,4)] sic_D [OF inv assms(5,6,7)] show ?thesis by simp
qed

text \<open>
  The claim as stated counts every record, and asks for exactly one while the client is
  attached. Three runs of entry points, each leaving the client attached, show that neither
  holds. After the main operation joins operation 1 and operation 1 completes (the run
  \<open>joined_and_completed\<close>) both records are scheduled: \<open>schedule_next_inner\<close> resets the
  flag of the previous operation only when it has not completed. After the main operation
  waits for resource 5 and operation 1, which got the token, completes (the run
  \<open>waiting_and_completed\<close>) the only scheduled record is the completed one, so no operation
  that has not completed is scheduled. After operation 1 is then created again (the run
  \<open>token_holder_revived\<close>) no record at all is scheduled.
\<close>

theorem scheduled_records_counterexample:
  "reachable example_strategy joined_and_completed \<and>
   reachable example_strategy waiting_and_completed \<and>
   reachable example_strategy token_holder_revived \<and>
   is_attached joined_and_completed \<and>
   map fst (operation_map joined_and_completed) = [0, 1] \<and>
   map (is_scheduled \<circ> snd) (operation_map joined_and_completed) = [True, True] \<and>
   map (status \<circ> snd) (operation_map joined_and_completed) = [Enabled, Completed] \<and>
   is_attached waiting_and_completed \<and>
   map fst (operation_map waiting_and_completed) = [0, 1] \<and>
   map (is_scheduled \<circ> snd) (operation_map waiting_and_completed) = [False, True] \<and>
   map (status \<circ> snd) (operation_map waiting_and_completed) = [Blocked, Completed] \<and>
   is_attached token_holder_revived \<and>
   map fst (operation_map token_holder_revived) = [0, 1] \<and>
   map (is_scheduled \<circ> snd) (operation_map token_holder_revived) = [False, False]"
  by (simp add: joined_and_completed_fields waiting_and_completed_fields
      token_holder_revived_fields example_reachable example_reachable_2)

theorem at_most_one_live_operation_scheduled_witness:
  "reachable example_strategy joined_and_completed \<and>
   map_of (operation_map joined_and_completed) 0 =
     Some \<lparr> op_id = 0, status = Enabled, is_scheduled = True, blocked_operation_ids = [],
            join_target = None, waiting_resources = None \<rparr> \<and>
   (0 :: nat) = scheduled_op_id joined_and_completed"
proof -
  let ?a = "\<lparr> op_id = 0, status = Enabled, is_scheduled = True, blocked_operation_ids = [],
            join_target = None, waiting_resources = None \<rparr>"
  note h1 = example_reachable(2)
  have h2: "map_of (operation_map joined_and_completed) 0 = Some ?a"
    by (simp add: joined_and_completed_fields)
  have h3: "is_scheduled ?a" and h4: "status ?a \<noteq> Completed"
    by simp_all
  from at_most_one_live_operation_scheduled [OF h1 h2 h3 h4 h2 h3 h4] h1 h2
  show ?thesis by blast
qed

subsection \<open>Creating an operation whose id exists\<close>

text \<open>
  Claim C5, as amended: \<open>create_operation_inner\<close>, where the entry point \<open>create_operation\<close>
  raises \<open>DuplicateOperation\<close>, throws it exactly when a record with the id exists and its
  status is not \<open>Completed\<close>; when the record exists with status \<open>Completed\<close> it raises
  nothing and leaves the record with status \<open>None\<close>. On an attached client whose
  scheduler is enabled and for an id other than the main operation's, the entry point returns \<open>DuplicateOperation\<close> when such a
  record exists, and, if the last error before the call is not \<open>DuplicateOperation\<close>, only
  then; when the record exists with status \<open>Completed\<close> it returns the last error as it was
  before the call (\<open>Success\<close> if none was raised since \<open>attach\<close>) and leaves the record
  with status \<open>None\<close>. In the run \<open>create_operation(7); start_operation(7);
  complete_operation(7); create_operation(7); create_operation(7)\<close> after \<open>attach\<close> the
  fourth call returns \<open>Success\<close> and leaves operation 7 with status \<open>None\<close>, and the fifth
  returns \<open>DuplicateOperation\<close>.
\<close>

theorem create_operation_duplicate_or_revive:
  "(fst (create_operation_inner operation_id k) = Throw DuplicateOperation \<longleftrightarrow>
      (\<exists>op. map_of (operation_map k) operation_id = Some op \<and> status op \<noteq> Completed)) \<and>
   (\<forall>op. map_of (operation_map k) operation_id = Some op \<and> status op = Completed \<longrightarrow>
      fst (create_operation_inner operation_id k) = Normal \<and>
      map_option status
        (map_of (operation_map (snd (create_operation_inner operation_id k))) operation_id) =
        Some None_status) \<and>
   (exploration_strategy k \<noteq> None_strategy \<and> is_attached k \<and> operation_id \<noteq> main_op_id \<longrightarrow>
      ((\<exists>op. map_of (operation_map k) operation_id = Some op \<and> status op \<noteq> Completed) \<longrightarrow>
         fst (create_operation operation_id k) = Returns DuplicateOperation) \<and>
      (last_error_code k \<noteq> DuplicateOperation \<longrightarrow>
         (fst (create_operation operation_id k) = Returns DuplicateOperation \<longleftrightarrow>
            (\<exists>op. map_of (operation_map k) operation_id = Some op \<and> status op \<noteq> Completed))) \<and>
      (\<forall>op. map_of (operation_map k) operation_id = Some op \<and> status op = Completed \<longrightarrow>
         fst (create_operation operation_id k) = Returns (last_error_code k) \<and>
         map_option status
           (map_of (operation_map (snd (create_operation operation_id k))) operation_id) =
           Some None_status)) \<and>
   results (pct_interface replay_next)
     [Attach, Create_operation 7, Start_operation 7, Complete_operation 7,
      Create_operation 7, Create_operation 7]
     (SchedulerClient PCT_strategy (PCTStrategy [] 0 0)) =
     [Returns Success, Returns Success, Parked 7, Returns Success,
      Returns Success, Returns DuplicateOperation] \<and>
   map (status \<circ> snd) (operation_map (run (pct_interface replay_next)
     [Attach, Create_operation 7, Start_operation 7, Complete_operation 7, Create_operation 7]
     (SchedulerClient PCT_strategy (PCTStrategy [] 0 0)))) = [Enabled, None_status]"
proof (intro conjI)
  show "fst (create_operation_inner operation_id k) = Throw DuplicateOperation \<longleftrightarrow>
      (\<exists>op. map_of (operation_map k) operation_id = Some op \<and> status op \<noteq> Completed)"
    by (rule create_operation_inner_duplicate)
  show "\<forall>op. map_of (operation_map k) operation_id = Some op \<and> status op = Completed \<longrightarrow>
      fst (create_operation_inner operation_id k) = Normal \<and>
      map_option status
        (map_of (operation_map (snd (create_operation_inner operation_id k))) operation_id) =
        Some None_status"
    using create_operation_inner_revive by blast
  show "exploration_strategy k \<noteq> None_strategy \<and> is_attached k \<and> operation_id \<noteq> main_op_id \<longrightarrow>
      ((\<exists>op. map_of (operation_map k) operation_id = Some op \<and> status op \<noteq> Completed) \<longrightarrow>
         fst (create_operation operation_id k) = Returns DuplicateOperation) \<and>
      (last_error_code k \<noteq> DuplicateOperation \<longrightarrow>
         (fst (create_operation operation_id k) = Returns DuplicateOperation \<longleftrightarrow>
            (\<exists>op. map_of (operation_map k) operation_id = Some op \<and> status op \<noteq> Completed))) \<and>
      (\<forall>op. map_of (operation_map k) operation_id = Some op \<and> status op = Completed \<longrightarrow>
         fst (create_operation operation_id k) = Returns (last_error_code k) \<and>
         map_option status
           (map_of (operation_map (snd (create_operation operation_id k))) operation_id) =
           Some None_status)"
  proof (intro impI)
    assume h: "exploration_strategy k \<noteq> None_strategy \<and> is_attached k \<and>
      operation_id \<noteq> main_op_id"
    then have h1: "exploration_strategy k \<noteq> None_strategy" and h2: "is_attached k"
      and h3: "operation_id \<noteq> main_op_id"
      by simp_all
    note d = create_operation_duplicate_iff [OF h1 h2 h3]
    have a: "(\<exists>op. map_of (operation_map k) operation_id = Some op \<and> status op \<noteq> Completed) \<longrightarrow>
         fst (create_operation operation_id k) = Returns DuplicateOperation"
      using d(1) by blast
    have b: "last_error_code k \<noteq> DuplicateOperation \<longrightarrow>
         (fst (create_operation operation_id k) = Returns DuplicateOperation \<longleftrightarrow>
            (\<exists>op. map_of (operation_map k) operation_id = Some op \<and> status op \<noteq> Completed))"
      using d(1) d(2) by blast
    have c: "\<forall>op. map_of (operation_map k) operation_id = Some op \<and> status op = Completed \<longrightarrow>
         fst (create_operation operation_id k) = Returns (last_error_code k) \<and>
         map_option status
           (map_of (operation_map (snd (create_operation operation_id k))) operation_id) =
           Some None_status"
      using d(3) by blast
    from a b c show "((\<exists>op. map_of (operation_map k) operation_id = Some op \<and> status op \<noteq> Completed) \<longrightarrow>
         fst (create_operation operation_id k) = Returns DuplicateOperation) \<and>
      (last_error_code k \<noteq> DuplicateOperation \<longrightarrow>
         (fst (create_operation operation_id k) = Returns DuplicateOperation \<longleftrightarrow>
            (\<exists>op. map_of (operation_map k) operation_id = Some op \<and> status op \<noteq> Completed))) \<and>
      (\<forall>op. map_of (operation_map k) operation_id = Some op \<and> status op = Completed \<longrightarrow>
         fst (create_operation operation_id k) = Returns (last_error_code k) \<and>
         map_option status
           (map_of (operation_map (snd (create_operation operation_id k))) operation_id) =
           Some None_status)"
      by (intro conjI)
  qed
  show "results (pct_interface replay_next)
     [Attach, Create_operation 7, Start_operation 7, Complete_operation 7,
      Create_operation 7, Create_operation 7]
     (SchedulerClient PCT_strategy (PCTStrategy [] 0 0)) =
     [Returns Success, Returns Success, Parked 7, Returns Success,
      Returns Success, Returns DuplicateOperation]"
    by (simp add: kernel_defs pct_defs)
  show "map (status \<circ> snd) (operation_map (run (pct_interface replay_next)
     [Attach, Create_operation 7, Start_operation 7, Complete_operation 7, Create_operation 7]
     (SchedulerClient PCT_strategy (PCTStrategy [] 0 0)))) = [Enabled, None_status]"
    by (simp add: kernel_defs pct_defs)
qed

text \<open>A completed operation 3 beside the main operation is created again, and once more;
  then operation 4, which does not exist, is created.\<close>

theorem create_operation_duplicate_or_revive_witness:
  "map (status \<circ> snd) (operation_map operation_3_completed) = [Enabled, Completed] \<and>
   last_error_code operation_3_completed = Success \<and>
   fst (create_operation_inner 3 operation_3_completed) = Normal \<and>
   fst (create_operation 3 operation_3_completed) = Returns Success \<and>
   map (status \<circ> snd) (operation_map operation_3_revived) = [Enabled, None_status] \<and>
   last_error_code operation_3_revived = Success \<and>
   fst (create_operation 3 operation_3_revived) = Returns DuplicateOperation \<and>
   map_of (operation_map operation_3_revived) 4 = None \<and>
   fst (create_operation 4 operation_3_revived) \<noteq> Returns DuplicateOperation"
proof -
  let ?op = "\<lparr> op_id = 3, status = Completed, is_scheduled = False, blocked_operation_ids = [],
      join_target = None, waiting_resources = None \<rparr>"
  let ?op2 = "\<lparr> op_id = 3, status = None_status, is_scheduled = False, blocked_operation_ids = [],
      join_target = None, waiting_resources = None \<rparr>"
  have m: "map (status \<circ> snd) (operation_map operation_3_completed) = [Enabled, Completed]"
    and m2: "map (status \<circ> snd) (operation_map operation_3_revived) = [Enabled, None_status]"
    and a: "map_of (operation_map operation_3_completed) 3 = Some ?op \<and> status ?op = Completed"
    and n: "map_of (operation_map operation_3_revived) 4 = None"
    by (simp_all add: operation_3_completed_fields operation_3_revived_fields)
  have g: "exploration_strategy operation_3_completed \<noteq> None_strategy \<and>
    is_attached operation_3_completed \<and> 3 \<noteq> main_op_id"
    by (simp add: operation_3_completed_fields main_op_id_def)
  have g2: "exploration_strategy operation_3_revived \<noteq> None_strategy \<and>
    is_attached operation_3_revived \<and> 3 \<noteq> main_op_id"
    and g3: "exploration_strategy operation_3_revived \<noteq> None_strategy \<and>
    is_attached operation_3_revived \<and> 4 \<noteq> main_op_id"
    by (simp_all add: operation_3_revived_fields main_op_id_def)
  have b: "\<exists>op. map_of (operation_map operation_3_revived) 3 = Some op \<and> status op \<noteq> Completed"
    by (simp add: operation_3_revived_fields)
  have e: "last_error_code operation_3_completed = Success"
    and e2: "last_error_code operation_3_revived \<noteq> DuplicateOperation"
    and e3: "last_error_code operation_3_revived = Success"
    by (simp_all add: operation_3_last_error)
  from create_operation_duplicate_or_revive [of 3 operation_3_completed] a g
  have c: "fst (create_operation_inner 3 operation_3_completed) = Normal \<and>
      fst (create_operation 3 operation_3_completed) =
        Returns (last_error_code operation_3_completed)"
    by blast
  from create_operation_duplicate_or_revive [of 3 operation_3_revived] b g2
  have d: "fst (create_operation 3 operation_3_revived) = Returns DuplicateOperation"
    by blast
  from create_operation_duplicate_or_revive [of 4 operation_3_revived] g3 e2 n
  have f: "fst (create_operation 4 operation_3_revived) \<noteq> Returns DuplicateOperation"
    by simp
  from m m2 c d e e3 n f show ?thesis by simp
qed

text \<open>
  The claim as stated has the entry point return \<open>DuplicateOperation\<close> exactly when the id
  exists and has not completed. Every entry point returns \<open>last_error_code\<close>, which only
  \<open>attach\<close> resets: after \<open>create_operation(7)\<close> has been called twice, \<open>create_operation(8)\<close>
  creates operation 8, which did not exist, and returns \<open>DuplicateOperation\<close>. And for the
  id of the main operation, which exists and has not completed, the entry point returns
  \<open>MainOperationExplicitlyCreated\<close>.
\<close>

theorem duplicate_operation_from_earlier_call_counterexample:
  "is_attached created_twice \<and>
   map fst (operation_map created_twice) = [0, 7] \<and>
   fst (create_operation_inner 8 created_twice) = Normal \<and>
   fst (create_operation 8 created_twice) = Returns DuplicateOperation \<and>
   is_attached after_attach \<and>
   map fst (operation_map after_attach) = [0] \<and>
   map (status \<circ> snd) (operation_map after_attach) = [Enabled] \<and>
   fst (create_operation 0 after_attach) = Returns MainOperationExplicitlyCreated"
  by (simp add: created_twice_fields after_attach_fields create_operation_def
      create_operation_inner_def insert_operation_def map_insert_def finish_def
      main_op_id_def Let_def Operation_def)

end
